theory Spec2Isabelle
  imports Complex_Main "HOL-Library.Word" "HOL-Library.List_Lexorder" "HOL-Library.Sublist"
begin

section \<open>JavaScript strings\<close>

text \<open>
  A JavaScript string is a sequence of UTF-16 code units; \<open>length\<close>, \<open>trim\<close>, the relational
  operators and a regular expression without the \<open>u\<close> flag all work on code units.
  Comparison of two strings with \<open><=\<close> is the lexicographic order of the code units, which
  is the order of lists (a proper prefix is smaller).
\<close>

type_synonym jschar = "16 word"
type_synonym jsstring = "jschar list"

definition js :: "string \<Rightarrow> jsstring" where
  \<comment> \<open>an ASCII literal of the source as code units\<close>
  "js s = map of_char s"

definition isWhiteSpace :: "jschar \<Rightarrow> bool" where
  \<comment> \<open>WhiteSpace and LineTerminator of ECMAScript: what \<open>trim\<close> strips and \<open>\s\<close> matches\<close>
  "isWhiteSpace c =
     (c \<in> {0x09, 0x0A, 0x0B, 0x0C, 0x0D, 0x20, 0xA0, 0x1680, 0x2028, 0x2029, 0x202F,
            0x205F, 0x3000, 0xFEFF}
      \<or> (0x2000 \<le> c \<and> c \<le> 0x200A))"

definition trim :: "jsstring \<Rightarrow> jsstring" where
  "trim s = rev (dropWhile isWhiteSpace (rev (dropWhile isWhiteSpace s)))"

definition truthy :: "jsstring \<Rightarrow> bool" where
  \<comment> \<open>a string is falsy exactly when it is empty\<close>
  "truthy s = (s \<noteq> [])"

section \<open>Regular expressions\<close>

text \<open>
  The two regular expressions of the repository use character classes, literals,
  alternation, concatenation and \<open>+\<close> only, so \<open>RegExp.prototype.test\<close> decides membership in
  a regular language. The matcher below decides it with derivatives.
\<close>

datatype regex =
    Never
  | Empty
  | Class "jschar \<Rightarrow> bool"
  | Alt regex regex
  | Seq regex regex
  | Star regex

fun nullable :: "regex \<Rightarrow> bool" where
  "nullable Never = False"
| "nullable Empty = True"
| "nullable (Class p) = False"
| "nullable (Alt r s) = (nullable r \<or> nullable s)"
| "nullable (Seq r s) = (nullable r \<and> nullable s)"
| "nullable (Star r) = True"

fun deriv :: "jschar \<Rightarrow> regex \<Rightarrow> regex" where
  "deriv c Never = Never"
| "deriv c Empty = Never"
| "deriv c (Class p) = (if p c then Empty else Never)"
| "deriv c (Alt r s) = Alt (deriv c r) (deriv c s)"
| "deriv c (Seq r s) =
     (if nullable r then Alt (Seq (deriv c r) s) (deriv c s) else Seq (deriv c r) s)"
| "deriv c (Star r) = Seq (deriv c r) (Star r)"

fun matches :: "regex \<Rightarrow> jsstring \<Rightarrow> bool" where
  "matches r [] = nullable r"
| "matches r (c # cs) = matches (deriv c r) cs"

definition Plus :: "regex \<Rightarrow> regex" where
  \<comment> \<open>\<open>r+\<close>\<close>
  "Plus r = Seq r (Star r)"

definition testWhole :: "regex \<Rightarrow> jsstring \<Rightarrow> bool" where
  \<comment> \<open>\<open>/^r$/.test(s)\<close>: without the \<open>m\<close> flag the anchors are the ends of the string\<close>
  "testWhole r s = matches r s"

definition testSearch :: "regex \<Rightarrow> jsstring \<Rightarrow> bool" where
  \<comment> \<open>\<open>/r/.test(s)\<close>: some substring of \<open>s\<close> matches\<close>
  "testSearch r s = matches (Seq (Star (Class (\<lambda>c. True))) (Seq r (Star (Class (\<lambda>c. True))))) s"

section \<open>Contact form validation\<close>

record ContactFormData =
  name :: jsstring
  email :: jsstring
  message :: jsstring

text \<open>
  The \<open>errors\<close> object has three optional keys; a key that was never assigned is \<open>None\<close>.
  The messages are literals of the source.
\<close>

record FormErrors =
  nameError :: "string option"
  emailError :: "string option"
  messageError :: "string option"

record ContactFormValidation =
  isValid :: bool
  errors :: FormErrors

definition notSpaceAt :: "jschar \<Rightarrow> bool" where
  \<comment> \<open>the class \<open>[^\s@]\<close>\<close>
  "notSpaceAt c = (\<not> isWhiteSpace c \<and> c \<noteq> 0x40)"

definition emailRegex :: regex where
  \<comment> \<open>\<open>[^\s@]+@[^\s@]+\.[^\s@]+\<close>, between \<open>^\<close> and \<open>$\<close>\<close>
  "emailRegex =
     Seq (Plus (Class notSpaceAt))
       (Seq (Class (\<lambda>c. c = 0x40))
         (Seq (Plus (Class notSpaceAt))
           (Seq (Class (\<lambda>c. c = 0x2E))
             (Plus (Class notSpaceAt)))))"

definition errorKeys :: "FormErrors \<Rightarrow> string list" where
  \<comment> \<open>\<open>Object.keys(errors)\<close>: the keys that were assigned\<close>
  "errorKeys e =
     (if nameError e \<noteq> None then [''name''] else [])
     @ (if emailError e \<noteq> None then [''email''] else [])
     @ (if messageError e \<noteq> None then [''message''] else [])"

definition validateContactForm :: "ContactFormData \<Rightarrow> ContactFormValidation" where
  "validateContactForm d =
     (let e0 = \<lparr>nameError = None, emailError = None, messageError = None\<rparr>;
          e1 = (if \<not> truthy (name d) \<or> length (trim (name d)) < 2
                then e0\<lparr>nameError := Some ''Name must be at least 2 characters''\<rparr>
                else e0);
          e2 = (if \<not> truthy (email d) \<or> \<not> testWhole emailRegex (email d)
                then e1\<lparr>emailError := Some ''Please enter a valid email address''\<rparr>
                else e1);
          e3 = (if \<not> truthy (message d) \<or> length (trim (message d)) < 10
                then e2\<lparr>messageError := Some ''Message must be at least 10 characters''\<rparr>
                else e2)
      in \<lparr>isValid = (length (errorKeys e3) = 0), errors = e3\<rparr>)"

section \<open>Quality presets of the 3D scene\<close>

datatype QualityLevel = high | medium | low

record PerformanceConfig =
  quality :: QualityLevel
  maxNodes :: nat
  geometryDetail :: nat
  enableAnimations :: bool
  enableGlow :: bool
  targetFPS :: nat

definition QUALITY_PRESETS :: "QualityLevel \<Rightarrow> PerformanceConfig" where
  "QUALITY_PRESETS q =
     (case q of
        high \<Rightarrow> \<lparr>quality = high, maxNodes = 8, geometryDetail = 16,
                 enableAnimations = True, enableGlow = True, targetFPS = 60\<rparr>
      | medium \<Rightarrow> \<lparr>quality = medium, maxNodes = 6, geometryDetail = 12,
                   enableAnimations = True, enableGlow = False, targetFPS = 30\<rparr>
      | low \<Rightarrow> \<lparr>quality = low, maxNodes = 4, geometryDetail = 8,
                enableAnimations = False, enableGlow = False, targetFPS = 30\<rparr>)"

text \<open>
  What \<open>detectDeviceCapability\<close> reads from its surroundings. On the server there is no
  \<open>window\<close>. In a browser it reads whether a canvas gives a \<open>webgl\<close> or an
  \<open>experimental-webgl\<close> context, \<open>navigator.hardwareConcurrency\<close> and
  \<open>navigator.deviceMemory\<close> (either may be undefined) and the user agent string.
  \<open>deviceMemory\<close> is a number of gigabytes such as 0.5 or 8, compared with constants only.
\<close>

record Navigator =
  webglContext :: bool
  experimentalWebglContext :: bool
  hardwareConcurrency :: "nat option"
  deviceMemory :: "rat option"
  userAgent :: jsstring

datatype Runtime = NoWindow | Window Navigator

definition asciiUpper :: "jschar \<Rightarrow> jschar" where
  "asciiUpper c = (if 0x61 \<le> c \<and> c \<le> 0x7A then c - 0x20 else c)"

definition ignoreCase :: "jschar \<Rightarrow> jschar \<Rightarrow> bool" where
  \<comment> \<open>a pattern character under the \<open>i\<close> flag; the canonicalisation of a regular expression
      without the \<open>u\<close> flag never maps a code unit from 128 on to an ASCII one, so an ASCII
      pattern character matches its two ASCII cases only\<close>
  "ignoreCase p c = (asciiUpper c = asciiUpper p)"

definition literalIgnoreCase :: "string \<Rightarrow> regex" where
  "literalIgnoreCase s = foldr (\<lambda>p r. Seq (Class (ignoreCase (of_char p))) r) s Empty"

definition mobileRegex :: regex where
  \<comment> \<open>\<open>/Android|webOS|iPhone|iPad|iPod|BlackBerry|IEMobile|Opera Mini/i\<close>\<close>
  "mobileRegex =
     foldr (\<lambda>s r. Alt (literalIgnoreCase s) r)
       [''Android'', ''webOS'', ''iPhone'', ''iPad'', ''iPod'', ''BlackBerry'', ''IEMobile'']
       (literalIgnoreCase ''Opera Mini'')"

definition gl :: "Navigator \<Rightarrow> bool" where
  "gl n = (webglContext n \<or> experimentalWebglContext n)"

definition cores :: "Navigator \<Rightarrow> nat" where
  \<comment> \<open>\<open>navigator.hardwareConcurrency || 2\<close>\<close>
  "cores n = (case hardwareConcurrency n of None \<Rightarrow> 2 | Some k \<Rightarrow> if k = 0 then 2 else k)"

definition memory :: "Navigator \<Rightarrow> rat" where
  \<comment> \<open>\<open>navigator.deviceMemory || 4\<close>\<close>
  "memory n = (case deviceMemory n of None \<Rightarrow> 4 | Some m \<Rightarrow> if m = 0 then 4 else m)"

definition isMobile :: "Navigator \<Rightarrow> bool" where
  "isMobile n = testSearch mobileRegex (userAgent n)"

definition detectDeviceCapability :: "Runtime \<Rightarrow> QualityLevel" where
  "detectDeviceCapability rt =
     (case rt of
        NoWindow \<Rightarrow> medium
      | Window n \<Rightarrow>
          if \<not> gl n then low
          else if isMobile n \<or> cores n \<le> 2 \<or> memory n < 4 then low
          else if cores n \<ge> 8 \<and> memory n \<ge> 8 then high
          else medium)"

definition getPerformanceConfig :: "QualityLevel option \<Rightarrow> Runtime \<Rightarrow> PerformanceConfig" where
  \<comment> \<open>the optional argument is a non-empty string when given, hence truthy\<close>
  "getPerformanceConfig q rt =
     QUALITY_PRESETS (case q of Some q' \<Rightarrow> q' | None \<Rightarrow> detectDeviceCapability rt)"

section \<open>Adaptive quality\<close>

text \<open>
  The body of \<open>measureFPS\<close> that runs once a second in \<open>useAdaptiveQuality\<close>: from the
  number of frames counted in that second and the current quality to the quality the
  hook holds afterwards.
\<close>

definition adjustQuality :: "nat \<Rightarrow> QualityLevel \<Rightarrow> QualityLevel" where
  "adjustQuality frameCount q =
     (if frameCount < 20 \<and> q \<noteq> low then low
      else if frameCount < 30 \<and> q = high then medium
      else q)"

fun rank :: "QualityLevel \<Rightarrow> nat" where
  \<comment> \<open>the order low < medium < high\<close>
  "rank low = 0"
| "rank medium = 1"
| "rank high = 2"

section \<open>Arrays\<close>

definition slice :: "int \<Rightarrow> int \<Rightarrow> 'a list \<Rightarrow> 'a list" where
  \<comment> \<open>\<open>Array.prototype.slice(start, end)\<close> on integers: a negative index counts from the end,
      and both ends are clamped to the array\<close>
  "slice start end' xs =
     (let len = int (length xs);
          k = (if start < 0 then max (len + start) 0 else min start len);
          final = (if end' < 0 then max (len + end') 0 else min end' len)
      in take (nat (final - k)) (drop (nat k) xs))"

text \<open>
  \<open>Array.prototype.sort(compareFn)\<close> is stable; with a consistent comparator its result is
  the one stable sorted arrangement of the array, which insertion from the right computes:
  an element goes before the first element it does not compare greater than.
\<close>

fun insertBy :: "('a \<Rightarrow> 'a \<Rightarrow> int) \<Rightarrow> 'a \<Rightarrow> 'a list \<Rightarrow> 'a list" where
  "insertBy cmp x [] = [x]"
| "insertBy cmp x (y # ys) = (if cmp x y \<le> 0 then x # y # ys else y # insertBy cmp x ys)"

definition sortBy :: "('a \<Rightarrow> 'a \<Rightarrow> int) \<Rightarrow> 'a list \<Rightarrow> 'a list" where
  "sortBy cmp xs = foldr (insertBy cmp) xs []"

section \<open>Outbound requests\<close>

text \<open>
  What one awaited \<open>fetch\<close> gives the handler. \<open>Threw\<close>: the request, or reading its body,
  raised. \<open>Responded st p\<close>: a response with status \<open>st\<close>; \<open>p\<close> is what \<open>json()\<close> yields on
  its body, \<open>None\<close> when \<open>json()\<close> raises. The payload has the type the source casts it to.
\<close>

datatype 'a Fetched = Threw | Responded nat "'a option"

definition ok :: "nat \<Rightarrow> bool" where
  \<comment> \<open>\<open>Response.ok\<close>\<close>
  "ok st = (200 \<le> st \<and> st \<le> 299)"

datatype 'a Body = Error string | Data 'a

record 'a Response =
  status :: nat
  body :: "'a Body"

definition json :: "'a Body \<Rightarrow> nat \<Rightarrow> 'a Response" where
  \<comment> \<open>\<open>NextResponse.json(body, { status })\<close>\<close>
  "json b st = \<lparr>status = st, body = b\<rparr>"

section \<open>GitHub statistics handler\<close>

record GitHubUser =
  public_repos :: int
  followers :: int
  following :: int

record GitHubRepo =
  stargazers_count :: int
  language :: "jsstring option"

record Contribution =
  date :: jsstring
  count :: int

record ContributionsData =
  total :: "(jsstring \<times> int) list option"
  contributions :: "Contribution list option"

text \<open>An entry \<open>{ name, count }\<close> of \<open>topLanguages\<close> is the pair of the two.\<close>

type_synonym LanguageCount = "jsstring \<times> nat"

record GitHubStats =
  publicRepos :: int
  followers :: int
  following :: int
  totalStars :: int
  topLanguages :: "LanguageCount list"
  totalContributions :: int
  currentStreak :: nat
  longestStreak :: nat

record GitHubUpstream =
  userRes :: "GitHubUser Fetched"
  reposRes :: "GitHubRepo list Fetched"
  allYearsRes :: "ContributionsData Fetched"

text \<open>
  \<open>langCount\<close> is an object used as a dictionary, modelled as an association list in the
  order of first assignment. That is the object for keys that are ordinary: a key that
  names a property of \<open>Object.prototype\<close> reads an inherited value before it is assigned,
  and \<open>Object.entries\<close> lists keys that are array indices before the others. The
  predicate \<open>ordinaryLanguages\<close> below says that the language names of a repo list are
  ordinary keys, and the theorems about the language counts assume it.
\<close>

fun increment :: "jsstring \<Rightarrow> LanguageCount list \<Rightarrow> LanguageCount list" where
  \<comment> \<open>\<open>langCount[k] = (langCount[k] || 0) + 1\<close>\<close>
  "increment k [] = [(k, 1)]"
| "increment k ((k', n) # rest) =
     (if k = k' then (k', (if n = 0 then 0 else n) + 1) # rest else (k', n) # increment k rest)"

definition countLanguage :: "LanguageCount list \<Rightarrow> GitHubRepo \<Rightarrow> LanguageCount list" where
  \<comment> \<open>the body of \<open>repos.forEach\<close>: \<open>null\<close> and the empty string are falsy\<close>
  "countLanguage langCount repo =
     (case language repo of
        None \<Rightarrow> langCount
      | Some l \<Rightarrow> if truthy l then increment l langCount else langCount)"

definition langCount :: "GitHubRepo list \<Rightarrow> LanguageCount list" where
  "langCount repos = foldl countLanguage [] repos"

definition computeTotalStars :: "GitHubRepo list \<Rightarrow> int" where
  \<comment> \<open>\<open>repos.reduce((sum, repo) => sum + repo.stargazers_count, 0)\<close>: the sum of integers,
      which is the sum of the source's numbers while every partial sum is a safe integer;
      the predicate \<open>exactStars\<close> below says so, and the theorem about the sum assumes it\<close>
  "computeTotalStars repos = foldl (\<lambda>sum repo. sum + stargazers_count repo) 0 repos"

definition computeTopLanguages :: "GitHubRepo list \<Rightarrow> LanguageCount list" where
  "computeTopLanguages repos =
     slice 0 5 (sortBy (\<lambda>a b. int (snd b) - int (snd a)) (langCount repos))"

fun currentStreakLoop :: "jsstring \<Rightarrow> Contribution list \<Rightarrow> nat \<Rightarrow> nat \<Rightarrow> nat" where
  \<comment> \<open>the loop \<open>for (let i = length - 1; i >= 0; i--)\<close>; the third argument is \<open>i + 1\<close>, so
      the entry read is \<open>validContribs[i]\<close> and the loop ends when it is 0\<close>
  "currentStreakLoop today validContribs 0 tempStreak = tempStreak"
| "currentStreakLoop today validContribs (Suc i) tempStreak =
     (if count (validContribs ! i) > 0
      then currentStreakLoop today validContribs i (tempStreak + 1)
      else if date (validContribs ! i) \<noteq> today then tempStreak
      else currentStreakLoop today validContribs i tempStreak)"

fun longestStreakLoop :: "Contribution list \<Rightarrow> nat \<Rightarrow> nat \<Rightarrow> nat" where
  \<comment> \<open>the loop \<open>for (const c of validContribs)\<close> over the state \<open>streak\<close>, \<open>longestStreak\<close>\<close>
  "longestStreakLoop [] streak longest = longest"
| "longestStreakLoop (c # cs) streak longest =
     (if count c > 0
      then longestStreakLoop cs (streak + 1) (max longest (streak + 1))
      else longestStreakLoop cs 0 longest)"

text \<open>
  The handler filters with \<open><=\<close>, the order of the code units, and sorts with
  \<open>String.prototype.localeCompare\<close>, the collation of the platform, which is another order.
  The collation is not part of the repository: the model takes the function as an
  argument named \<open>localeCompare\<close>.
\<close>

type_synonym Collation = "jsstring \<Rightarrow> jsstring \<Rightarrow> int"

definition validContribs :: "Collation \<Rightarrow> jsstring \<Rightarrow> Contribution list \<Rightarrow> Contribution list" where
  "validContribs localeCompare today cs =
     sortBy (\<lambda>a b. localeCompare (date a) (date b)) (filter (\<lambda>c. date c \<le> today) cs)"

definition streaks :: "Collation \<Rightarrow> jsstring \<Rightarrow> Contribution list \<Rightarrow> nat \<times> nat" where
  \<comment> \<open>\<open>(currentStreak, longestStreak)\<close> of a contributions list\<close>
  "streaks localeCompare today cs =
     (let v = validContribs localeCompare today cs
      in (currentStreakLoop today v (length v) 0, longestStreakLoop v 0 0))"

definition contributionStats ::
  "Collation \<Rightarrow> jsstring \<Rightarrow> ContributionsData Fetched \<Rightarrow> int \<times> nat \<times> nat" where
  \<comment> \<open>the inner \<open>try\<close>: \<open>(totalContributions, currentStreak, longestStreak)\<close>, which stay 0
      where the request raises, is not OK, or lacks the field\<close>
  "contributionStats localeCompare today res =
     (case res of
        Threw \<Rightarrow> (0, 0, 0)
      | Responded st p \<Rightarrow>
          if \<not> ok st then (0, 0, 0)
          else (case p of
                  None \<Rightarrow> (0, 0, 0)
                | Some allYearsData \<Rightarrow>
                    ((case total allYearsData of
                        None \<Rightarrow> 0
                      | Some t \<Rightarrow> foldl (\<lambda>sum n. sum + n) 0 (map snd t)),
                     (case contributions allYearsData of
                        None \<Rightarrow> (0, 0)
                      | Some cs \<Rightarrow> streaks localeCompare today cs))))"

definition githubFailed :: "GitHubStats Response" where
  \<comment> \<open>the outer \<open>catch\<close>\<close>
  "githubFailed = json (Error ''Failed to fetch GitHub data'') 500"

definition GET_github ::
  "jsstring option \<Rightarrow> jsstring \<Rightarrow> GitHubUpstream \<Rightarrow> Collation \<Rightarrow> GitHubStats Response" where
  \<comment> \<open>\<open>username\<close> is \<open>searchParams.get('username')\<close>, \<open>null\<close> when the parameter is absent;
      \<open>today\<close> is the date the handler reads from the clock; \<open>localeCompare\<close> is the
      collation of the platform\<close>
  "GET_github username today up localeCompare =
     (if (case username of None \<Rightarrow> True | Some u \<Rightarrow> \<not> truthy u)
      then json (Error ''Username required'') 400
      else
        (case userRes up of
           Threw \<Rightarrow> githubFailed
         | Responded st userPayload \<Rightarrow>
             if \<not> ok st then
               (if st = 403 then json (Error ''GitHub API rate limit exceeded'') 429
                else if st = 401 then json (Error ''Invalid GitHub token'') 401
                else if st = 404 then json (Error ''User not found'') 404
                else githubFailed)
             else
               (case userPayload of
                  None \<Rightarrow> githubFailed
                | Some userData \<Rightarrow>
                    (case reposRes up of
                       Threw \<Rightarrow> githubFailed
                     | Responded rst reposPayload \<Rightarrow>
                         (case (if ok rst then reposPayload else Some []) of
                            None \<Rightarrow> githubFailed
                          | Some repos \<Rightarrow>
                              (case contributionStats localeCompare today (allYearsRes up) of
                                 (tc, cur, lng) \<Rightarrow>
                                   json (Data
                                     \<lparr>publicRepos = public_repos userData,
                                      followers = GitHubUser.followers userData,
                                      following = GitHubUser.following userData,
                                      totalStars = computeTotalStars repos,
                                      topLanguages = computeTopLanguages repos,
                                      totalContributions = tc,
                                      currentStreak = cur,
                                      longestStreak = lng\<rparr>) 200))))))"

section \<open>Blog handler\<close>

record DevToArticle =
  id' :: int
  title :: jsstring
  description :: jsstring
  url :: jsstring
  cover_image :: "jsstring option"
  social_image :: "jsstring option"
  published_at :: jsstring
  reading_time_minutes :: int
  tag_list :: "jsstring list"

record Blog =
  id' :: int
  title :: jsstring
  description :: jsstring
  url :: jsstring
  coverImage :: "jsstring option"
  socialImage :: "jsstring option"
  publishedAt :: jsstring
  readingTimeMinutes :: int
  tags :: "jsstring list"

definition transformArticle :: "DevToArticle \<Rightarrow> Blog" where
  "transformArticle article =
     \<lparr>id' = DevToArticle.id' article,
      title = DevToArticle.title article,
      description = DevToArticle.description article,
      url = DevToArticle.url article,
      coverImage = cover_image article,
      socialImage = social_image article,
      publishedAt = published_at article,
      readingTimeMinutes = reading_time_minutes article,
      tags = tag_list article\<rparr>"

definition blogFailed :: "Blog list Response" where
  "blogFailed = json (Error ''Failed to fetch blog posts'') 500"

definition GET_blog :: "jsstring option \<Rightarrow> DevToArticle list Fetched \<Rightarrow> Blog list Response" where
  "GET_blog username response =
     (if (case username of None \<Rightarrow> True | Some u \<Rightarrow> \<not> truthy u)
      then json (Error ''Username required'') 400
      else
        (case response of
           Threw \<Rightarrow> blogFailed
         | Responded st payload \<Rightarrow>
             if \<not> ok st then
               (if st = 404 then json (Error ''User not found'') 404
                else if st = 429 then json (Error ''Rate limit exceeded'') 429
                else blogFailed)
             else
               (case payload of
                  None \<Rightarrow> blogFailed
                | Some articles \<Rightarrow> json (Data (map transformArticle (slice 0 3 articles))) 200)))"

section \<open>Network graph\<close>

record NodeData =
  id' :: string
  position :: "rat \<times> rat \<times> rat"
  connections :: "string list"
  label :: "string option"

definition NETWORK_NODES :: "NodeData list" where
  "NETWORK_NODES =
     [\<lparr>id' = ''api-gateway'', position = (0, 3 / 2, 0),
       connections = [''auth'', ''users'', ''data''], label = Some ''API Gateway''\<rparr>,
      \<lparr>id' = ''auth'', position = (- 2, 1 / 2, 1 / 2),
       connections = [''users'', ''cache''], label = Some ''Auth Service''\<rparr>,
      \<lparr>id' = ''users'', position = (2, 1 / 2, - 1 / 2),
       connections = [''db'', ''cache''], label = Some ''User Service''\<rparr>,
      \<lparr>id' = ''data'', position = (0, 0, 1),
       connections = [''db'', ''queue''], label = Some ''Data Service''\<rparr>,
      \<lparr>id' = ''db'', position = (- 1, - 3 / 2, 0),
       connections = [''cache''], label = Some ''Database''\<rparr>,
      \<lparr>id' = ''cache'', position = (1, - 1, 1 / 2),
       connections = [], label = Some ''Cache''\<rparr>,
      \<lparr>id' = ''queue'', position = (2, - 3 / 2, - 1 / 2),
       connections = [''workers''], label = Some ''Message Queue''\<rparr>,
      \<lparr>id' = ''workers'', position = (0, - 2, 0),
       connections = [], label = Some ''Workers''\<rparr>]"

record Connection =
  start :: "rat \<times> rat \<times> rat"
  end' :: "rat \<times> rat \<times> rat"
  key :: string

definition visibleNodes :: "PerformanceConfig \<Rightarrow> NodeData list" where
  "visibleNodes performanceConfig = slice 0 (int (maxNodes performanceConfig)) NETWORK_NODES"

definition connectionsOf :: "NodeData list \<Rightarrow> Connection list" where
  \<comment> \<open>the \<open>connections\<close> memo, as a function of \<open>visibleNodes\<close>\<close>
  "connectionsOf visible =
     (let visibleIds = set (map NodeData.id' visible)
      in concat (map (\<lambda>node.
           concat (map (\<lambda>targetId.
             if targetId \<notin> visibleIds then []
             else (case find (\<lambda>n. NodeData.id' n = targetId) visible of
                     None \<Rightarrow> []
                   | Some targetNode \<Rightarrow>
                       [\<lparr>start = position node, end' = position targetNode,
                         key = NodeData.id' node @ ''-'' @ targetId\<rparr>]))
             (connections node)))
           visible))"

section \<open>The streaks in the words of the specification\<close>

definition positive :: "Contribution \<Rightarrow> bool" where
  "positive c = (count c > 0)"

definition longestRun :: "Contribution list \<Rightarrow> nat" where
  \<comment> \<open>the length of the longest run of consecutive entries that all have a positive count\<close>
  "longestRun v = Max (set (map length (filter (list_all positive) (sublists v))))"

definition trailingRun :: "jsstring \<Rightarrow> Contribution list \<Rightarrow> nat" where
  \<comment> \<open>going back from the last entry, an entry without contributions ends the scan unless it
      is dated today; the entries with contributions met on the way are counted\<close>
  "trailingRun today v =
     length (filter positive
       (takeWhile (\<lambda>c. positive c \<or> date c = today) (rev v)))"

section \<open>Vocabulary of the claims\<close>

definition fails :: "'a Fetched \<Rightarrow> bool" where
  \<comment> \<open>an outbound request fails: it raises, or its response is not OK\<close>
  "fails r = (case r of Threw \<Rightarrow> True | Responded st p \<Rightarrow> \<not> ok st)"

definition unreadable :: "'a Fetched \<Rightarrow> bool" where
  \<comment> \<open>an OK response whose body \<open>json()\<close> cannot read\<close>
  "unreadable r =
     (case r of
        Threw \<Rightarrow> False
      | Responded st p \<Rightarrow> ok st \<and> (case p of None \<Rightarrow> True | Some x \<Rightarrow> False))"

definition repoCount :: "GitHubRepo list \<Rightarrow> jsstring \<Rightarrow> nat" where
  \<comment> \<open>the number of repos of a language\<close>
  "repoCount repos l = length (filter (\<lambda>r. language r = Some l) repos)"

definition isDigit :: "jschar \<Rightarrow> bool" where
  "isDigit c = (0x30 \<le> c \<and> c \<le> 0x39)"

definition objectPrototypeNames :: "string list" where
  \<comment> \<open>the properties every plain object inherits\<close>
  "objectPrototypeNames =
     [''constructor'', ''__defineGetter__'', ''__defineSetter__'', ''hasOwnProperty'',
      ''__lookupGetter__'', ''__lookupSetter__'', ''isPrototypeOf'',
      ''propertyIsEnumerable'', ''toString'', ''valueOf'', ''__proto__'',
      ''toLocaleString'']"

definition ordinaryKey :: "jsstring \<Rightarrow> bool" where
  \<comment> \<open>a key of a plain object that is neither written in digits only, as an array index
      is, nor the name of an inherited property\<close>
  "ordinaryKey l =
     (\<not> (l \<noteq> [] \<and> list_all isDigit l) \<and> l \<notin> set (map js objectPrototypeNames))"

definition ordinaryLanguages :: "GitHubRepo list \<Rightarrow> bool" where
  "ordinaryLanguages repos =
     list_all (\<lambda>r. case language r of None \<Rightarrow> True | Some l \<Rightarrow> ordinaryKey l) repos"

definition exactStars :: "GitHubRepo list \<Rightarrow> bool" where
  \<comment> \<open>star counts that are not negative and add up to at most \<open>Number.MAX_SAFE_INTEGER\<close>:
      then every partial sum is an integer that a number of the source holds exactly\<close>
  "exactStars repos =
     (list_all (\<lambda>r. 0 \<le> stargazers_count r) repos
      \<and> sum_list (map stargazers_count repos) \<le> 2 ^ 53 - 1)"

definition isoDate :: "jsstring \<Rightarrow> bool" where
  \<comment> \<open>a date as the contributions API writes it, \<open>YYYY-MM-DD\<close>\<close>
  "isoDate s =
     (length s = 10 \<and> list_all isDigit (take 4 s) \<and> s ! 4 = 0x2D
      \<and> list_all isDigit (take 2 (drop 5 s)) \<and> s ! 7 = 0x2D
      \<and> list_all isDigit (drop 8 s))"

text \<open>
  The default collation on strings of ASCII digits, hyphens and commas: punctuation sorts
  before the digits, the hyphen before the comma, and the digits by their value. It
  stands for \<open>localeCompare\<close> where a theorem needs the function at such strings. Other
  code units are not modelled: the key places them after the digits.
\<close>

definition collationKey :: "jschar \<Rightarrow> nat" where
  "collationKey c =
     (if c = 0x2D then 0 else if c = 0x2C then 1
      else if isDigit c then unat c else 100 + unat c)"

definition dateCollation :: Collation where
  "dateCollation a b =
     (if map collationKey a < map collationKey b then - 1
      else if map collationKey a = map collationKey b then 0 else 1)"

section \<open>The language of a regular expression\<close>

text \<open>
  What a pattern denotes, independently of how it is matched: the set of strings it
  accepts from its first to its last code unit.
\<close>

inductive_set star :: "jsstring set \<Rightarrow> jsstring set" for A :: "jsstring set" where
  star_empty: "[] \<in> star A"
| star_step: "u \<in> A \<Longrightarrow> v \<in> star A \<Longrightarrow> u @ v \<in> star A"

fun lang :: "regex \<Rightarrow> jsstring set" where
  "lang Never = {}"
| "lang Empty = {[]}"
| "lang (Class p) = {[c] | c. p c}"
| "lang (Alt r s) = lang r \<union> lang s"
| "lang (Seq r s) = {u @ v | u v. u \<in> lang r \<and> v \<in> lang s}"
| "lang (Star r) = star (lang r)"

section \<open>Adaptive quality never upgrades\<close>

text \<open>
  C9. One adjustment of \<open>useAdaptiveQuality\<close>, taken once a second: fewer than 20 frames
  at a quality other than low gives low; otherwise fewer than 30 frames at high gives
  medium; otherwise the quality stays. In the order low < medium < high the quality after
  the step is never above the quality before it.
\<close>

theorem adjustQuality_never_upgrades:
  "adjustQuality frameCount q =
     (if frameCount < 20 \<and> q \<noteq> low then low
      else if frameCount < 30 \<and> q = high then medium
      else q)
   \<and> rank (adjustQuality frameCount q) \<le> rank q"
  by (cases q) (simp_all add: adjustQuality_def)

theorem adjustQuality_never_upgrades_witness:
  "adjustQuality 25 high = medium \<and> adjustQuality 12 medium = low
   \<and> adjustQuality 45 medium = medium
   \<and> rank (adjustQuality 25 high) \<le> rank high"
  using adjustQuality_never_upgrades [of 25 high] adjustQuality_never_upgrades [of 12 medium]
    adjustQuality_never_upgrades [of 45 medium]
  by simp

section \<open>Device capability and presets\<close>

text \<open>
  C5. \<open>detectDeviceCapability\<close> gives medium without a window. With a window it gives low
  exactly when there is no WebGL context, the user agent matches the mobile pattern, the
  cores are at most 2 or the memory is below 4; high exactly when none of these holds and
  both cores and memory are at least 8; medium in the remaining case. Cores and memory are
  the values after the defaults 2 and 4. \<open>getPerformanceConfig\<close> with a quality returns
  the fixed preset of that quality.
\<close>

theorem detectDeviceCapability_presets:
  "detectDeviceCapability NoWindow = medium
   \<and> (detectDeviceCapability (Window n) = low
        \<longleftrightarrow> \<not> gl n \<or> isMobile n \<or> cores n \<le> 2 \<or> memory n < 4)
   \<and> (detectDeviceCapability (Window n) = high
        \<longleftrightarrow> gl n \<and> \<not> isMobile n \<and> \<not> cores n \<le> 2 \<and> \<not> memory n < 4
            \<and> cores n \<ge> 8 \<and> memory n \<ge> 8)
   \<and> (detectDeviceCapability (Window n) = medium
        \<longleftrightarrow> gl n \<and> \<not> isMobile n \<and> \<not> cores n \<le> 2 \<and> \<not> memory n < 4
            \<and> \<not> (cores n \<ge> 8 \<and> memory n \<ge> 8))
   \<and> getPerformanceConfig (Some low) rt =
        \<lparr>quality = low, maxNodes = 4, geometryDetail = 8,
         enableAnimations = False, enableGlow = False, targetFPS = 30\<rparr>
   \<and> getPerformanceConfig (Some medium) rt =
        \<lparr>quality = medium, maxNodes = 6, geometryDetail = 12,
         enableAnimations = True, enableGlow = False, targetFPS = 30\<rparr>
   \<and> getPerformanceConfig (Some high) rt =
        \<lparr>quality = high, maxNodes = 8, geometryDetail = 16,
         enableAnimations = True, enableGlow = True, targetFPS = 60\<rparr>"
  by (simp add: detectDeviceCapability_def getPerformanceConfig_def QUALITY_PRESETS_def)

theorem detectDeviceCapability_presets_witness:
  "detectDeviceCapability NoWindow = medium
   \<and> detectDeviceCapability (Window \<lparr>webglContext = True, experimentalWebglContext = False,
        hardwareConcurrency = Some 8, deviceMemory = Some 8,
        userAgent = js ''X11; Linux''\<rparr>) = high
   \<and> detectDeviceCapability (Window \<lparr>webglContext = True, experimentalWebglContext = False,
        hardwareConcurrency = Some 8, deviceMemory = Some 8,
        userAgent = js ''like iphone os''\<rparr>) = low
   \<and> detectDeviceCapability (Window \<lparr>webglContext = True, experimentalWebglContext = False,
        hardwareConcurrency = Some 4, deviceMemory = None,
        userAgent = js ''X11; Linux''\<rparr>) = medium
   \<and> maxNodes (getPerformanceConfig (Some low) NoWindow) = 4"
  using
    detectDeviceCapability_presets [of "\<lparr>webglContext = True, experimentalWebglContext = False,
        hardwareConcurrency = Some 8, deviceMemory = Some 8,
        userAgent = js ''X11; Linux''\<rparr>" NoWindow]
    detectDeviceCapability_presets [of "\<lparr>webglContext = True, experimentalWebglContext = False,
        hardwareConcurrency = Some 8, deviceMemory = Some 8,
        userAgent = js ''like iphone os''\<rparr>" NoWindow]
    detectDeviceCapability_presets [of "\<lparr>webglContext = True, experimentalWebglContext = False,
        hardwareConcurrency = Some 4, deviceMemory = None,
        userAgent = js ''X11; Linux''\<rparr>" NoWindow]
  by (simp add: gl_def cores_def memory_def isMobile_def testSearch_def mobileRegex_def
      literalIgnoreCase_def js_def ignoreCase_def asciiUpper_def)

section \<open>The handlers, path by path\<close>

lemma slice_0_nat: "slice 0 (int n) xs = take n xs"
  by (simp add: slice_def Let_def min_def)

lemma slice_0_3: "slice 0 3 xs = take 3 xs"
  using slice_0_nat [of 3 xs] by simp

lemma GET_github_no_username:
  "username = None \<or> username = Some [] \<Longrightarrow>
   GET_github username today up localeCompare = json (Error ''Username required'') 400"
  by (auto simp add: GET_github_def truthy_def)

lemma GET_github_user_threw:
  "username = Some u \<Longrightarrow> u \<noteq> [] \<Longrightarrow> userRes up = Threw \<Longrightarrow>
   GET_github username today up localeCompare = githubFailed"
  by (simp add: GET_github_def truthy_def)

lemma GET_github_user_not_ok:
  "username = Some u \<Longrightarrow> u \<noteq> [] \<Longrightarrow> userRes up = Responded st p \<Longrightarrow> \<not> ok st \<Longrightarrow>
   GET_github username today up localeCompare =
     (if st = 403 then json (Error ''GitHub API rate limit exceeded'') 429
      else if st = 401 then json (Error ''Invalid GitHub token'') 401
      else if st = 404 then json (Error ''User not found'') 404
      else githubFailed)"
  by (simp add: GET_github_def truthy_def)

lemma GET_github_user_unparsed:
  "username = Some u \<Longrightarrow> u \<noteq> [] \<Longrightarrow> userRes up = Responded st None \<Longrightarrow> ok st \<Longrightarrow>
   GET_github username today up localeCompare = githubFailed"
  by (simp add: GET_github_def truthy_def)

lemma GET_github_repos_threw:
  "username = Some u \<Longrightarrow> u \<noteq> [] \<Longrightarrow> userRes up = Responded st (Some userData) \<Longrightarrow> ok st \<Longrightarrow>
   reposRes up = Threw \<Longrightarrow>
   GET_github username today up localeCompare = githubFailed"
  by (simp add: GET_github_def truthy_def)

lemma GET_github_repos_unparsed:
  "username = Some u \<Longrightarrow> u \<noteq> [] \<Longrightarrow> userRes up = Responded st (Some userData) \<Longrightarrow> ok st \<Longrightarrow>
   reposRes up = Responded rst None \<Longrightarrow> ok rst \<Longrightarrow>
   GET_github username today up localeCompare = githubFailed"
  by (simp add: GET_github_def truthy_def)

lemma GET_github_success:
  "username = Some u \<Longrightarrow> u \<noteq> [] \<Longrightarrow> userRes up = Responded st (Some userData) \<Longrightarrow> ok st \<Longrightarrow>
   reposRes up = Responded rst rp \<Longrightarrow> (ok rst \<Longrightarrow> rp = Some repos) \<Longrightarrow>
   (\<not> ok rst \<Longrightarrow> repos = []) \<Longrightarrow>
   GET_github username today up localeCompare =
     json (Data
       \<lparr>publicRepos = public_repos userData,
        followers = GitHubUser.followers userData,
        following = GitHubUser.following userData,
        totalStars = computeTotalStars repos,
        topLanguages = computeTopLanguages repos,
        totalContributions = fst (contributionStats localeCompare today (allYearsRes up)),
        currentStreak = fst (snd (contributionStats localeCompare today (allYearsRes up))),
        longestStreak = snd (snd (contributionStats localeCompare today (allYearsRes up)))\<rparr>) 200"
  by (cases "ok rst") (simp_all add: GET_github_def truthy_def split: prod.split)


lemma status_json: "status (json b st) = st" and body_json: "body (json b st) = b"
  by (simp_all add: json_def)

lemma GET_github_with_username:
  assumes u: "username = Some u" "u \<noteq> []"
  shows "(\<exists>e. GET_github username today up localeCompare = json (Error e) 401)
       \<or> (\<exists>e. GET_github username today up localeCompare = json (Error e) 404)
       \<or> (\<exists>e. GET_github username today up localeCompare = json (Error e) 429)
       \<or> (\<exists>e. GET_github username today up localeCompare = json (Error e) 500)
       \<or> (\<exists>d. GET_github username today up localeCompare = json (Data d) 200)"
proof (cases "userRes up")
  case Threw
  from GET_github_user_threw [OF u Threw, of today] show ?thesis
    by (auto simp add: githubFailed_def)
next
  case (Responded st p)
  note user = this
  show ?thesis
  proof (cases "ok st")
    case False
    from GET_github_user_not_ok [OF u user False, of today] show ?thesis
      by (auto simp add: githubFailed_def)
  next
    case True
    note okst = this
    show ?thesis
    proof (cases p)
      case None
      with GET_github_user_unparsed [OF u _ okst, of up today] user show ?thesis
        by (auto simp add: githubFailed_def)
    next
      case (Some userData)
      with user have user': "userRes up = Responded st (Some userData)" by simp
      show ?thesis
      proof (cases "reposRes up")
        case Threw
        from GET_github_repos_threw [OF u user' okst Threw, of today] show ?thesis
          by (auto simp add: githubFailed_def)
      next
        case (Responded rst rp)
        note repos = this
        show ?thesis
        proof (cases "ok rst \<and> rp = None")
          case True
          with repos have "reposRes up = Responded rst None" "ok rst" by simp_all
          from GET_github_repos_unparsed [OF u user' okst this, of today] show ?thesis
            by (auto simp add: githubFailed_def)
        next
          case False
          define rs where "rs = (if ok rst then the rp else [])"
          have a: "ok rst \<Longrightarrow> rp = Some rs" and b: "\<not> ok rst \<Longrightarrow> rs = []"
            using False by (auto simp add: rs_def)
          from GET_github_success [OF u user' okst repos a b, of today] show ?thesis
            by blast
        qed
      qed
    qed
  qed
qed

lemma GET_github_statuses:
  "(status (GET_github username today up localeCompare) = 400 \<longleftrightarrow> username = None \<or> username = Some [])
   \<and> (status (GET_github username today up localeCompare) = 400
        \<longrightarrow> body (GET_github username today up localeCompare) = Error ''Username required'')
   \<and> (status (GET_github username today up localeCompare) \<notin> {200, 400}
        \<longrightarrow> status (GET_github username today up localeCompare) \<in> {401, 404, 429, 500}
            \<and> (\<exists>e. body (GET_github username today up localeCompare) = Error e))"
proof (cases "username = None \<or> username = Some []")
  case True
  from GET_github_no_username [OF this, of today up] True show ?thesis
    by (simp add: status_json body_json)
next
  case False
  then obtain u where u: "username = Some u" "u \<noteq> []" by (cases username) auto
  from GET_github_with_username [OF u, of today up localeCompare] False show ?thesis
    by (elim disjE exE) (simp_all add: status_json body_json)
qed


lemma GET_blog_no_username:
  "username = None \<or> username = Some [] \<Longrightarrow>
   GET_blog username response = json (Error ''Username required'') 400"
  by (auto simp add: GET_blog_def truthy_def)

lemma GET_blog_with_username:
  assumes u: "username = Some u" "u \<noteq> []"
  shows "GET_blog username response =
     (case response of
        Threw \<Rightarrow> blogFailed
      | Responded st payload \<Rightarrow>
          if \<not> ok st then
            (if st = 404 then json (Error ''User not found'') 404
             else if st = 429 then json (Error ''Rate limit exceeded'') 429
             else blogFailed)
          else
            (case payload of
               None \<Rightarrow> blogFailed
             | Some articles \<Rightarrow> json (Data (map transformArticle (take 3 articles))) 200))"
  using u by (simp add: GET_blog_def truthy_def slice_0_3 split: Fetched.split option.split)

lemma GET_blog_statuses:
  "(status (GET_blog username response) = 400 \<longleftrightarrow> username = None \<or> username = Some [])
   \<and> (status (GET_blog username response) = 400
        \<longrightarrow> body (GET_blog username response) = Error ''Username required'')
   \<and> (status (GET_blog username response) \<notin> {200, 400}
        \<longrightarrow> status (GET_blog username response) \<in> {401, 404, 429, 500}
            \<and> (\<exists>e. body (GET_blog username response) = Error e))"
proof (cases "username = None \<or> username = Some []")
  case True
  from GET_blog_no_username [OF this, of response] True show ?thesis
    by (simp add: status_json body_json)
next
  case False
  then obtain u where u: "username = Some u" "u \<noteq> []" by (cases username) auto
  from GET_blog_with_username [OF u, of response] False show ?thesis
    by (simp add: status_json body_json blogFailed_def split: Fetched.split option.split)
qed

section \<open>Error statuses of the two handlers\<close>

text \<open>
  C2, as the claim states it, fails: a request whose \<open>username\<close> parameter is present but
  empty (\<open>?username=\<close>) is answered with 400 by both handlers, because the guard is
  \<open>!username\<close> and the empty string is falsy.
\<close>

theorem username_present_but_empty_counterexample:
  "(Some [] :: jsstring option) \<noteq> None
   \<and> status (GET_github (Some []) (js ''2024-05-01'')
        \<lparr>userRes = Threw, reposRes = Threw, allYearsRes = Threw\<rparr> dateCollation) = 400
   \<and> status (GET_blog (Some []) Threw) = 400"
  by (simp add: GET_github_def GET_blog_def truthy_def json_def)

text \<open>
  C2, amended. Each handler responds with status 400 and the body
  \<open>{error: 'Username required'}\<close> exactly when the \<open>username\<close> parameter is absent or
  empty. Every other response that is not the 200 success has a status among 401, 404, 429
  and 500 and an \<open>{error}\<close> body. A user response that is not OK maps 403 to 429, 401 to
  401, 404 to 404 and anything else to 500 in the GitHub handler; an articles response that
  is not OK maps 404 to 404, 429 to 429 and anything else to 500 in the blog handler.
\<close>

theorem proxy_error_statuses:
  "(status (GET_github username today up localeCompare) = 400 \<longleftrightarrow> username = None \<or> username = Some [])
   \<and> (status (GET_blog username response) = 400 \<longleftrightarrow> username = None \<or> username = Some [])
   \<and> (status (GET_github username today up localeCompare) = 400
        \<longrightarrow> body (GET_github username today up localeCompare) = Error ''Username required'')
   \<and> (status (GET_blog username response) = 400
        \<longrightarrow> body (GET_blog username response) = Error ''Username required'')
   \<and> (status (GET_github username today up localeCompare) \<notin> {200, 400}
        \<longrightarrow> status (GET_github username today up localeCompare) \<in> {401, 404, 429, 500}
            \<and> (\<exists>e. body (GET_github username today up localeCompare) = Error e))
   \<and> (status (GET_blog username response) \<notin> {200, 400}
        \<longrightarrow> status (GET_blog username response) \<in> {401, 404, 429, 500}
            \<and> (\<exists>e. body (GET_blog username response) = Error e))
   \<and> (username = Some u \<and> u \<noteq> [] \<and> userRes up = Responded st p \<and> \<not> ok st
        \<longrightarrow> status (GET_github username today up localeCompare)
              = (if st = 403 then 429 else if st = 401 then 401
                 else if st = 404 then 404 else 500))
   \<and> (username = Some u \<and> u \<noteq> [] \<and> response = Responded st q \<and> \<not> ok st
        \<longrightarrow> status (GET_blog username response)
              = (if st = 404 then 404 else if st = 429 then 429 else 500))"
proof -
  have gh: "username = Some u \<and> u \<noteq> [] \<and> userRes up = Responded st p \<and> \<not> ok st
        \<longrightarrow> status (GET_github username today up localeCompare)
              = (if st = 403 then 429 else if st = 401 then 401
                 else if st = 404 then 404 else 500)"
  proof (intro impI, elim conjE)
    assume a: "username = Some u" "u \<noteq> []" "userRes up = Responded st p" "\<not> ok st"
    from GET_github_user_not_ok [OF a, of today]
    show "status (GET_github username today up localeCompare)
              = (if st = 403 then 429 else if st = 401 then 401
                 else if st = 404 then 404 else 500)"
      by (simp add: status_json githubFailed_def)
  qed
  have bl: "username = Some u \<and> u \<noteq> [] \<and> response = Responded st q \<and> \<not> ok st
        \<longrightarrow> status (GET_blog username response)
              = (if st = 404 then 404 else if st = 429 then 429 else 500)"
  proof (intro impI, elim conjE)
    assume a: "username = Some u" "u \<noteq> []" "response = Responded st q" "\<not> ok st"
    from GET_blog_with_username [OF a(1,2), of response] a(3,4)
    show "status (GET_blog username response)
              = (if st = 404 then 404 else if st = 429 then 429 else 500)"
      by (simp add: status_json blogFailed_def)
  qed
  from GET_github_statuses [of username today up] GET_blog_statuses [of username response] gh bl
  show ?thesis by blast
qed

theorem proxy_error_statuses_witness:
  "status (GET_github (Some (js ''octocat'')) (js ''2024-05-01'')
      \<lparr>userRes = Responded 403 None, reposRes = Threw, allYearsRes = Threw\<rparr>
      dateCollation) = 429
   \<and> body (GET_github (Some (js ''octocat'')) (js ''2024-05-01'')
      \<lparr>userRes = Responded 403 None, reposRes = Threw, allYearsRes = Threw\<rparr>
      dateCollation)
      = Error ''GitHub API rate limit exceeded''
   \<and> status (GET_blog (Some (js ''octocat'')) (Responded 503 None)) = 500
   \<and> status (GET_blog None (Responded 503 None)) = 400"
  using proxy_error_statuses [of "Some (js ''octocat'')" "js ''2024-05-01''"
      "\<lparr>userRes = Responded 403 None, reposRes = Threw, allYearsRes = Threw\<rparr>"
      dateCollation "Responded 503 None" "js ''octocat''" 403 None None]
    proxy_error_statuses [of "Some (js ''octocat'')" "js ''2024-05-01''"
      "\<lparr>userRes = Responded 403 None, reposRes = Threw, allYearsRes = Threw\<rparr>"
      dateCollation "Responded 503 None" "js ''octocat''" 503 None None]
    proxy_error_statuses [of None "js ''2024-05-01''"
      "\<lparr>userRes = Responded 403 None, reposRes = Threw, allYearsRes = Threw\<rparr>"
      dateCollation "Responded 503 None" "js ''octocat''" 503 None None]
  by (simp add: js_def ok_def GET_github_def truthy_def json_def)

section \<open>Failures of the outbound requests of the GitHub handler\<close>

text \<open>
  C4, as the claim states it, fails: with a user response that is OK, a repos response of
  status 500 and a contributions request that raises, the handler answers 200 with the
  figures of the empty repo list and contribution figures of 0.
\<close>

theorem partial_failure_counterexample:
  "fails (Responded 500 None :: GitHubRepo list Fetched)
   \<and> fails (Threw :: ContributionsData Fetched)
   \<and> GET_github (Some (js ''octocat'')) (js ''2024-05-01'')
        \<lparr>userRes = Responded 200 (Some \<lparr>public_repos = 8, GitHubUser.followers = 3, GitHubUser.following = 1\<rparr>),
         reposRes = Responded 500 None,
         allYearsRes = Threw\<rparr> dateCollation
      = json (Data \<lparr>publicRepos = 8, GitHubStats.followers = 3, GitHubStats.following = 1, totalStars = 0,
                    topLanguages = [], totalContributions = 0, currentStreak = 0,
                    longestStreak = 0\<rparr>) 200"
  by (simp add: fails_def ok_def GET_github_def truthy_def js_def contributionStats_def
      computeTotalStars_def computeTopLanguages_def langCount_def sortBy_def slice_def)

lemma contributionStats_absorbed:
  "fails res \<or> unreadable res \<Longrightarrow> contributionStats localeCompare today res = (0, 0, 0)"
  by (cases res) (auto simp add: fails_def unreadable_def contributionStats_def
      split: option.splits)

text \<open>
  C4, amended. For a request with a username: when the user request fails (it raises or
  is not OK) or its OK body cannot be read, or the repos request raises or its OK body
  cannot be read, the handler answers with a status among 401, 404, 429 and 500 and an
  \<open>{error}\<close> body, never with 200. When the user response is OK and readable, a repos
  response that is not OK is absorbed: the handler answers 200 with \<open>totalStars\<close> 0 and
  no top languages. When moreover the repos request answered and its body, if OK, was
  readable, any failure of the contributions request (it raises, is not OK, or its OK
  body cannot be read) is absorbed: the handler answers 200 with the three contribution
  figures at 0.
\<close>

theorem GET_github_failure_handling:
  assumes "username = Some u" and "u \<noteq> []"
  shows "(fails (userRes up) \<or> unreadable (userRes up)
            \<or> reposRes up = Threw \<or> unreadable (reposRes up)
           \<longrightarrow> status (GET_github username today up localeCompare) \<in> {401, 404, 429, 500}
               \<and> (\<exists>e. body (GET_github username today up localeCompare) = Error e))
       \<and> (userRes up = Responded st (Some userData) \<and> ok st
            \<and> reposRes up = Responded rst rp \<and> \<not> ok rst
           \<longrightarrow> status (GET_github username today up localeCompare) = 200
               \<and> (\<exists>d. body (GET_github username today up localeCompare) = Data d
                      \<and> totalStars d = 0 \<and> topLanguages d = []))
       \<and> (userRes up = Responded st (Some userData) \<and> ok st
            \<and> reposRes up = Responded rst rp \<and> (ok rst \<longrightarrow> rp \<noteq> None)
            \<and> (fails (allYearsRes up) \<or> unreadable (allYearsRes up))
           \<longrightarrow> status (GET_github username today up localeCompare) = 200
               \<and> (\<exists>d. body (GET_github username today up localeCompare) = Data d
                      \<and> totalContributions d = 0 \<and> currentStreak d = 0
                      \<and> longestStreak d = 0))"
proof (intro conjI impI)
  assume f: "fails (userRes up) \<or> unreadable (userRes up)
            \<or> reposRes up = Threw \<or> unreadable (reposRes up)"
  have "\<not> (\<exists>d. GET_github username today up localeCompare = json (Data d) 200)"
  proof (cases "userRes up")
    case Threw
    from GET_github_user_threw [OF assms Threw, of today] show ?thesis
      by (simp add: githubFailed_def json_def)
  next
    case (Responded st' p')
    show ?thesis
    proof (cases "ok st'")
      case False
      from GET_github_user_not_ok [OF assms Responded False, of today] show ?thesis
        by (simp add: githubFailed_def json_def)
    next
      case True
      show ?thesis
      proof (cases p')
        case None
        with Responded have "userRes up = Responded st' None" by simp
        from GET_github_user_unparsed [OF assms this True, of today] show ?thesis
          by (simp add: githubFailed_def json_def)
      next
        case (Some ud)
        with Responded have user: "userRes up = Responded st' (Some ud)" by simp
        with f True have "reposRes up = Threw \<or> unreadable (reposRes up)"
          by (simp add: fails_def unreadable_def)
        then show ?thesis
        proof
          assume r: "reposRes up = Threw"
          from GET_github_repos_threw [OF assms user True r, of today] show ?thesis
            by (simp add: githubFailed_def json_def)
        next
          assume "unreadable (reposRes up)"
          then obtain rst' where r: "reposRes up = Responded rst' None" and okr: "ok rst'"
            by (cases "reposRes up") (auto simp add: unreadable_def split: option.splits)
          from GET_github_repos_unparsed [OF assms user True r okr, of today] show ?thesis
            by (simp add: githubFailed_def json_def)
        qed
      qed
    qed
  qed
  with GET_github_with_username [OF assms, of today up localeCompare]
  show "status (GET_github username today up localeCompare) \<in> {401, 404, 429, 500}"
    and "\<exists>e. body (GET_github username today up localeCompare) = Error e"
    by (auto simp add: status_json body_json)
next
  assume a: "userRes up = Responded st (Some userData) \<and> ok st
            \<and> reposRes up = Responded rst rp \<and> \<not> ok rst"
  then have "GET_github username today up localeCompare =
     json (Data
       \<lparr>publicRepos = public_repos userData,
        followers = GitHubUser.followers userData,
        following = GitHubUser.following userData,
        totalStars = computeTotalStars [],
        topLanguages = computeTopLanguages [],
        totalContributions = fst (contributionStats localeCompare today (allYearsRes up)),
        currentStreak = fst (snd (contributionStats localeCompare today (allYearsRes up))),
        longestStreak = snd (snd (contributionStats localeCompare today (allYearsRes up)))\<rparr>) 200"
    by (intro GET_github_success [OF assms, of up st userData rst rp]) simp_all
  then show "status (GET_github username today up localeCompare) = 200"
    and "\<exists>d. body (GET_github username today up localeCompare) = Data d
             \<and> totalStars d = 0 \<and> topLanguages d = []"
    by (simp_all add: status_json body_json computeTotalStars_def computeTopLanguages_def
        langCount_def sortBy_def slice_def)
next
  assume a: "userRes up = Responded st (Some userData) \<and> ok st
            \<and> reposRes up = Responded rst rp \<and> (ok rst \<longrightarrow> rp \<noteq> None)
            \<and> (fails (allYearsRes up) \<or> unreadable (allYearsRes up))"
  define repos where "repos = (if ok rst then the rp else [])"
  from a have z: "contributionStats localeCompare today (allYearsRes up) = (0, 0, 0)"
    by (intro contributionStats_absorbed) simp
  from a have "GET_github username today up localeCompare =
     json (Data
       \<lparr>publicRepos = public_repos userData,
        followers = GitHubUser.followers userData,
        following = GitHubUser.following userData,
        totalStars = computeTotalStars repos,
        topLanguages = computeTopLanguages repos,
        totalContributions = fst (contributionStats localeCompare today (allYearsRes up)),
        currentStreak = fst (snd (contributionStats localeCompare today (allYearsRes up))),
        longestStreak = snd (snd (contributionStats localeCompare today (allYearsRes up)))\<rparr>) 200"
    by (intro GET_github_success [OF assms, of up st userData rst rp])
       (auto simp add: repos_def)
  with z show "status (GET_github username today up localeCompare) = 200"
    and "\<exists>d. body (GET_github username today up localeCompare) = Data d
             \<and> totalContributions d = 0 \<and> currentStreak d = 0 \<and> longestStreak d = 0"
    by (simp_all add: status_json body_json)
qed

theorem GET_github_failure_handling_witness:
  "js ''octocat'' \<noteq> []
   \<and> status (GET_github (Some (js ''octocat'')) (js ''2024-05-01'')
        \<lparr>userRes = Responded 200 (Some \<lparr>public_repos = 8, GitHubUser.followers = 3, GitHubUser.following = 1\<rparr>),
         reposRes = Responded 200 None, allYearsRes = Threw\<rparr> dateCollation)
       \<in> {401, 404, 429, 500}
   \<and> status (GET_github (Some (js ''octocat'')) (js ''2024-05-01'')
        \<lparr>userRes = Responded 200 (Some \<lparr>public_repos = 8, GitHubUser.followers = 3, GitHubUser.following = 1\<rparr>),
         reposRes = Responded 502 None, allYearsRes = Responded 200 None\<rparr> dateCollation)
       = 200"
proof -
  let ?user = "\<lparr>public_repos = 8, GitHubUser.followers = 3, GitHubUser.following = 1\<rparr>"
  let ?up1 = "\<lparr>userRes = Responded 200 (Some ?user),
         reposRes = Responded 200 None, allYearsRes = Threw\<rparr>"
  let ?up2 = "\<lparr>userRes = Responded 200 (Some ?user),
         reposRes = Responded 502 None, allYearsRes = Responded 200 None\<rparr>"
  have u: "Some (js ''octocat'') = Some (js ''octocat'')" "js ''octocat'' \<noteq> []"
    by (simp_all add: js_def)
  have "unreadable (reposRes ?up1)" by (simp add: unreadable_def ok_def)
  with GET_github_failure_handling [OF u, of ?up1 "js ''2024-05-01''" dateCollation]
  have 1: "status (GET_github (Some (js ''octocat'')) (js ''2024-05-01'') ?up1 dateCollation)
       \<in> {401, 404, 429, 500}"
    by blast
  have "userRes ?up2 = Responded 200 (Some ?user) \<and> ok 200
            \<and> reposRes ?up2 = Responded 502 None \<and> (ok 502 \<longrightarrow> (None :: GitHubRepo list option) \<noteq> None)
            \<and> (fails (allYearsRes ?up2) \<or> unreadable (allYearsRes ?up2))"
    by (simp add: unreadable_def ok_def)
  with GET_github_failure_handling [OF u, of ?up2 "js ''2024-05-01''" dateCollation
      200 ?user 502 None]
  have 2: "status (GET_github (Some (js ''octocat'')) (js ''2024-05-01'') ?up2 dateCollation)
       = 200"
    by blast
  from u(2) 1 2 show ?thesis by simp
qed

section \<open>The blog handler returns the first three articles\<close>

text \<open>
  C6. For a request with a username and an articles response that is OK with the article
  list \<open>A\<close>, the blog handler answers 200 with the first \<open>min |A| 3\<close> articles of \<open>A\<close>
  in their order, each transformed by \<open>transformArticle\<close>, which copies every field
  unchanged under its camelCase name.
\<close>

theorem GET_blog_first_three:
  "truthy username \<Longrightarrow> ok st \<Longrightarrow>
   GET_blog (Some username) (Responded st (Some A))
     = json (Data (map transformArticle (take (min (length A) 3) A))) 200
   \<and> length (map transformArticle (take (min (length A) 3) A)) = min (length A) 3
   \<and> (\<forall>a. Blog.id' (transformArticle a) = DevToArticle.id' a
         \<and> Blog.title (transformArticle a) = DevToArticle.title a
         \<and> Blog.description (transformArticle a) = DevToArticle.description a
         \<and> Blog.url (transformArticle a) = DevToArticle.url a
         \<and> coverImage (transformArticle a) = cover_image a
         \<and> socialImage (transformArticle a) = social_image a
         \<and> publishedAt (transformArticle a) = published_at a
         \<and> readingTimeMinutes (transformArticle a) = reading_time_minutes a
         \<and> tags (transformArticle a) = tag_list a)"
  by (simp add: GET_blog_def slice_0_3 transformArticle_def min_def)

theorem GET_blog_first_three_witness:
  "truthy (js ''octocat'') \<and> ok 200
   \<and> GET_blog (Some (js ''octocat'')) (Responded 200 (Some
        [\<lparr>DevToArticle.id' = 1, DevToArticle.title = js ''a'', DevToArticle.description = [], DevToArticle.url = [], cover_image = None,
          social_image = None, published_at = [], reading_time_minutes = 1, tag_list = []\<rparr>,
         \<lparr>DevToArticle.id' = 2, DevToArticle.title = js ''b'', DevToArticle.description = [], DevToArticle.url = [], cover_image = None,
          social_image = None, published_at = [], reading_time_minutes = 2, tag_list = []\<rparr>,
         \<lparr>DevToArticle.id' = 3, DevToArticle.title = js ''c'', DevToArticle.description = [], DevToArticle.url = [], cover_image = None,
          social_image = None, published_at = [], reading_time_minutes = 3, tag_list = []\<rparr>,
         \<lparr>DevToArticle.id' = 4, DevToArticle.title = js ''d'', DevToArticle.description = [], DevToArticle.url = [], cover_image = None,
          social_image = None, published_at = [], reading_time_minutes = 4, tag_list = []\<rparr>]))
     = json (Data
        [\<lparr>Blog.id' = 1, Blog.title = js ''a'', Blog.description = [], Blog.url = [], coverImage = None,
          socialImage = None, publishedAt = [], readingTimeMinutes = 1, tags = []\<rparr>,
         \<lparr>Blog.id' = 2, Blog.title = js ''b'', Blog.description = [], Blog.url = [], coverImage = None,
          socialImage = None, publishedAt = [], readingTimeMinutes = 2, tags = []\<rparr>,
         \<lparr>Blog.id' = 3, Blog.title = js ''c'', Blog.description = [], Blog.url = [], coverImage = None,
          socialImage = None, publishedAt = [], readingTimeMinutes = 3, tags = []\<rparr>]) 200"
  using GET_blog_first_three [of "js ''octocat''" 200
        "[\<lparr>DevToArticle.id' = 1, DevToArticle.title = js ''a'', DevToArticle.description = [], DevToArticle.url = [], cover_image = None,
          social_image = None, published_at = [], reading_time_minutes = 1, tag_list = []\<rparr>,
         \<lparr>DevToArticle.id' = 2, DevToArticle.title = js ''b'', DevToArticle.description = [], DevToArticle.url = [], cover_image = None,
          social_image = None, published_at = [], reading_time_minutes = 2, tag_list = []\<rparr>,
         \<lparr>DevToArticle.id' = 3, DevToArticle.title = js ''c'', DevToArticle.description = [], DevToArticle.url = [], cover_image = None,
          social_image = None, published_at = [], reading_time_minutes = 3, tag_list = []\<rparr>,
         \<lparr>DevToArticle.id' = 4, DevToArticle.title = js ''d'', DevToArticle.description = [], DevToArticle.url = [], cover_image = None,
          social_image = None, published_at = [], reading_time_minutes = 4, tag_list = []\<rparr>]"]
  by (simp add: truthy_def js_def ok_def transformArticle_def)

section \<open>Sorting with a comparator\<close>

lemma insertBy_insort_key:
  assumes "\<And>x y. cmp x y \<le> 0 \<longleftrightarrow> f x \<le> f y"
  shows "insertBy cmp x ys = insort_key f x ys"
  by (induction ys) (simp_all add: assms)

lemma sortBy_sort_key:
  assumes "\<And>x y. cmp x y \<le> 0 \<longleftrightarrow> f x \<le> f y"
  shows "sortBy cmp xs = sort_key f xs"
proof -
  have "insertBy cmp = insort_key f"
    by (intro ext) (rule insertBy_insort_key [OF assms])
  then show ?thesis by (simp add: sortBy_def sort_key_def)
qed

lemma count_list_insort_key: "count_list (insort_key f x ys) z = count_list (x # ys) z"
  by (induction ys) auto

lemma count_list_sort_key: "count_list (sort_key f xs) z = count_list xs z"
  by (induction xs) (simp_all add: count_list_insort_key)

lemma distinct_map_insort_key:
  "distinct (map g (insort_key f x ys)) \<longleftrightarrow> distinct (map g (x # ys))"
  by (induction ys) (auto simp add: set_insort_key)

lemma distinct_map_sort_key: "distinct (map g (sort_key f xs)) \<longleftrightarrow> distinct (map g xs)"
  by (induction xs) (simp_all add: distinct_map_insort_key)

section \<open>Repo statistics\<close>

lemma computeTotalStars_sum: "computeTotalStars repos = sum_list (map stargazers_count repos)"
proof -
  have "foldl (\<lambda>sum repo. sum + stargazers_count repo) a repos
          = a + sum_list (map stargazers_count repos)" for a
    by (induction repos arbitrary: a) simp_all
  from this [of 0] show ?thesis by (simp add: computeTotalStars_def)
qed

lemma map_of_increment:
  "map_of (increment k acc) =
     (map_of acc)(k \<mapsto> (case map_of acc k of None \<Rightarrow> 1 | Some n \<Rightarrow> n + 1))"
  by (induction acc) (auto simp add: fun_eq_iff)

lemma keys_increment: "fst ` set (increment k acc) = insert k (fst ` set acc)"
proof -
  have "set (map fst (increment k acc)) = insert k (set (map fst acc))"
    by (induction k acc rule: increment.induct) auto
  then show ?thesis by simp
qed

lemma distinct_increment:
  "distinct (map fst acc) \<Longrightarrow> distinct (map fst (increment k acc))"
  by (induction acc) (auto simp add: keys_increment)

lemma repoCount_snoc:
  "repoCount (rs @ [r]) l = repoCount rs l + (if language r = Some l then 1 else 0)"
  by (simp add: repoCount_def)

lemma langCount_snoc: "langCount (rs @ [r]) = countLanguage (langCount rs) r"
  by (simp add: langCount_def)

lemma langCount_invariant:
  "distinct (map fst (langCount repos))
   \<and> (\<forall>l. map_of (langCount repos) l
          = (if l \<noteq> [] \<and> 0 < repoCount repos l then Some (repoCount repos l) else None))"
proof (induction repos rule: rev_induct)
  case Nil
  show ?case by (simp add: langCount_def repoCount_def)
next
  case (snoc r rs)
  show ?case
  proof (cases "language r")
    case None
    with snoc show ?thesis
      by (simp add: langCount_snoc countLanguage_def repoCount_snoc)
  next
    case (Some k)
    show ?thesis
    proof (cases "k = []")
      case True
      with Some snoc show ?thesis
        by (auto simp add: langCount_snoc countLanguage_def repoCount_snoc truthy_def)
    next
      case False
      with Some have step: "langCount (rs @ [r]) = increment k (langCount rs)"
        by (simp add: langCount_snoc countLanguage_def truthy_def)
      have "distinct (map fst (langCount (rs @ [r])))"
        using snoc step by (simp add: distinct_increment)
      moreover have "map_of (langCount (rs @ [r])) l
          = (if l \<noteq> [] \<and> 0 < repoCount (rs @ [r]) l
             then Some (repoCount (rs @ [r]) l) else None)" for l
        using snoc Some False by (simp add: step map_of_increment repoCount_snoc)
      ultimately show ?thesis by blast
    qed
  qed
qed

lemma langCount_entry:
  "(l, n) \<in> set (langCount repos) \<longleftrightarrow> l \<noteq> [] \<and> 0 < n \<and> n = repoCount repos l"
proof -
  from langCount_invariant [of repos]
  have d: "distinct (map fst (langCount repos))"
    and m: "map_of (langCount repos) l
          = (if l \<noteq> [] \<and> 0 < repoCount repos l then Some (repoCount repos l) else None)"
    by simp_all
  from d have "(l, n) \<in> set (langCount repos) \<longleftrightarrow> map_of (langCount repos) l = Some n"
    by simp
  with m show ?thesis by auto
qed

lemma repoCount_positive: "0 < repoCount repos l \<longleftrightarrow> Some l \<in> language ` set repos"
proof
  assume "0 < repoCount repos l"
  then obtain r where "r \<in> set repos" "language r = Some l"
    by (auto simp add: repoCount_def filter_empty_conv)
  then show "Some l \<in> language ` set repos" by force
next
  assume "Some l \<in> language ` set repos"
  then obtain r where "r \<in> set repos" "language r = Some l" by force
  then show "0 < repoCount repos l"
    by (auto simp add: repoCount_def filter_empty_conv)
qed

lemma computeTopLanguages_sorted:
  "computeTopLanguages repos
     = take 5 (sort_key (\<lambda>e. - int (snd e)) (langCount repos))"
proof -
  have "sortBy (\<lambda>a b. int (snd b) - int (snd a)) xs = sort_key (\<lambda>e. - int (snd e)) xs"
    for xs :: "LanguageCount list"
    by (rule sortBy_sort_key) auto
  then show ?thesis
    using slice_0_nat [of 5] by (simp add: computeTopLanguages_def)
qed

lemma computeTopLanguages_properties:
  fixes repos
  defines "langs \<equiv> computeTopLanguages repos"
  shows "length langs \<le> 5"
    and "distinct (map fst langs)"
    and "(l, n) \<in> set langs
         \<Longrightarrow> Some l \<in> language ` set repos \<and> l \<noteq> [] \<and> n = repoCount repos l"
    and "sorted_wrt (\<ge>) (map snd langs)"
    and "l \<noteq> [] \<Longrightarrow> Some l \<in> language ` set repos \<Longrightarrow> l \<notin> fst ` set langs
         \<Longrightarrow> length langs = 5 \<and> (\<forall>(l', n') \<in> set langs. repoCount repos l \<le> n')"
proof -
  define S where "S = sort_key (\<lambda>e. - int (snd e)) (langCount repos)"
  have langs: "langs = take 5 S"
    by (simp add: langs_def S_def computeTopLanguages_sorted)
  have setS: "set S = set (langCount repos)" by (simp add: S_def)
  have sortedS: "sorted (map (\<lambda>e. - int (snd e)) S)"
    unfolding S_def by (rule sorted_sort_key)
  show "length langs \<le> 5" by (simp add: langs)
  have "distinct (map fst S)"
    using langCount_invariant [of repos] by (simp add: S_def distinct_map_sort_key)
  then show "distinct (map fst langs)"
    by (simp add: langs take_map [symmetric] distinct_take)
  show "Some l \<in> language ` set repos \<and> l \<noteq> [] \<and> n = repoCount repos l"
    if "(l, n) \<in> set langs"
  proof -
    from that have "(l, n) \<in> set (langCount repos)"
      using setS by (auto simp add: langs dest: in_set_takeD)
    then show ?thesis by (simp add: langCount_entry repoCount_positive [symmetric])
  qed
  have "sorted (map (\<lambda>e. - int (snd e)) langs)"
    using sortedS by (simp add: langs take_map [symmetric] sorted_wrt_take)
  then show "sorted_wrt (\<ge>) (map snd langs)"
    by (simp add: sorted_wrt_map)
  show "length langs = 5 \<and> (\<forall>(l', n') \<in> set langs. repoCount repos l \<le> n')"
    if "l \<noteq> []" "Some l \<in> language ` set repos" "l \<notin> fst ` set langs"
  proof -
    from that(1,2) have "(l, repoCount repos l) \<in> set S"
      by (simp add: setS langCount_entry repoCount_positive)
    moreover have "(l, repoCount repos l) \<notin> set (take 5 S)"
      using that(3) by (force simp add: langs)
    moreover have "set S = set (take 5 S) \<union> set (drop 5 S)"
      by (metis append_take_drop_id set_append)
    ultimately have inD: "(l, repoCount repos l) \<in> set (drop 5 S)" by blast
    then have "drop 5 S \<noteq> []" by auto
    then have len: "length langs = 5" by (simp add: langs min_def)
    have "sorted (map (\<lambda>e. - int (snd e)) (take 5 S @ drop 5 S))"
      using sortedS by simp
    then have "\<forall>a \<in> set (take 5 S). \<forall>b \<in> set (drop 5 S). snd b \<le> snd a"
      by (auto simp add: sorted_append simp del: append_take_drop_id)
    with inD have "\<forall>a \<in> set langs. repoCount repos l \<le> snd a"
      unfolding langs by fastforce
    with len show ?thesis by auto
  qed
qed

text \<open>
  C7, as the claim states it, fails: a repo whose language is the empty string has a
  language that is not null, yet \<open>topLanguages\<close> has no entry for it, because the source
  counts a language only when it is truthy.
\<close>

theorem empty_language_counterexample:
  "language \<lparr>stargazers_count = 1, language = Some []\<rparr> \<noteq> None
   \<and> GET_github (Some (js ''octocat'')) (js ''2024-05-01'')
        \<lparr>userRes = Responded 200
           (Some \<lparr>public_repos = 1, GitHubUser.followers = 3, GitHubUser.following = 1\<rparr>),
         reposRes = Responded 200 (Some [\<lparr>stargazers_count = 1, language = Some []\<rparr>]),
         allYearsRes = Threw\<rparr> dateCollation
      = json (Data \<lparr>publicRepos = 1, GitHubStats.followers = 3, GitHubStats.following = 1,
                    totalStars = 1, topLanguages = [], totalContributions = 0,
                    currentStreak = 0, longestStreak = 0\<rparr>) 200"
  by (simp add: ok_def GET_github_def truthy_def js_def contributionStats_def
      computeTotalStars_def computeTopLanguages_def langCount_def countLanguage_def
      sortBy_def slice_def)

text \<open>
  C7, amended. Take a repo list whose star counts are not negative and add up to at most
  \<open>2^53 - 1\<close>, and whose language names are ordinary keys of an object (not written in
  digits only, not the name of a property of \<open>Object.prototype\<close>). When the handler
  answers with statistics computed from it (the fetched list, or the empty list when the
  repos response is not OK): \<open>totalStars\<close> is the sum of \<open>stargazers_count\<close>;
  \<open>topLanguages\<close> has at most 5 entries, no language twice, each entry a language of some
  repo with the number of repos of that language, in descending order of that number; a
  language that is neither null nor empty and has no entry leaves 5 entries in place, none
  with fewer repos. When the repos response is not OK, \<open>totalStars\<close> is 0 and
  \<open>topLanguages\<close> is empty.
\<close>

theorem GET_github_repo_statistics:
  assumes "username = Some u" and "u \<noteq> []"
    and "userRes up = Responded st (Some userData)" and "ok st"
    and "reposRes up = Responded rst rp"
    and "ok rst \<Longrightarrow> rp = Some repos" and "\<not> ok rst \<Longrightarrow> repos = []"
    and "exactStars repos" and "ordinaryLanguages repos"
  shows "\<exists>d. GET_github username today up localeCompare = json (Data d) 200
     \<and> totalStars d = sum_list (map stargazers_count repos)
     \<and> length (topLanguages d) \<le> 5
     \<and> distinct (map fst (topLanguages d))
     \<and> (\<forall>(l, n) \<in> set (topLanguages d).
           Some l \<in> language ` set repos \<and> l \<noteq> [] \<and> n = repoCount repos l)
     \<and> sorted_wrt (\<ge>) (map snd (topLanguages d))
     \<and> (\<forall>l. l \<noteq> [] \<and> Some l \<in> language ` set repos \<and> l \<notin> fst ` set (topLanguages d)
           \<longrightarrow> length (topLanguages d) = 5
               \<and> (\<forall>(l', n') \<in> set (topLanguages d). repoCount repos l \<le> n'))
     \<and> (\<not> ok rst \<longrightarrow> totalStars d = 0 \<and> topLanguages d = [])"
proof -
  define d where "d =
       \<lparr>publicRepos = public_repos userData,
        GitHubStats.followers = GitHubUser.followers userData,
        GitHubStats.following = GitHubUser.following userData,
        totalStars = computeTotalStars repos,
        topLanguages = computeTopLanguages repos,
        totalContributions = fst (contributionStats localeCompare today (allYearsRes up)),
        currentStreak = fst (snd (contributionStats localeCompare today (allYearsRes up))),
        longestStreak = snd (snd (contributionStats localeCompare today (allYearsRes up)))\<rparr>"
  have r: "GET_github username today up localeCompare = json (Data d) 200"
    unfolding d_def by (rule GET_github_success [OF assms(1-7)])
  have ts: "totalStars d = computeTotalStars repos"
    and tl: "topLanguages d = computeTopLanguages repos"
    by (simp_all add: d_def)
  have p1: "totalStars d = sum_list (map stargazers_count repos)"
    by (simp add: ts computeTotalStars_sum)
  have p2: "length (topLanguages d) \<le> 5"
    and p3: "distinct (map fst (topLanguages d))"
    and p5: "sorted_wrt (\<ge>) (map snd (topLanguages d))"
    unfolding tl by (rule computeTopLanguages_properties)+
  have p4: "\<forall>(l, n) \<in> set (topLanguages d).
           Some l \<in> language ` set repos \<and> l \<noteq> [] \<and> n = repoCount repos l"
    unfolding tl using computeTopLanguages_properties(3) [of _ _ repos] by blast
  have p6: "\<forall>l. l \<noteq> [] \<and> Some l \<in> language ` set repos \<and> l \<notin> fst ` set (topLanguages d)
           \<longrightarrow> length (topLanguages d) = 5
               \<and> (\<forall>(l', n') \<in> set (topLanguages d). repoCount repos l \<le> n')"
    unfolding tl using computeTopLanguages_properties(5) [of _ repos] by blast
  have p7: "\<not> ok rst \<longrightarrow> totalStars d = 0 \<and> topLanguages d = []"
    using assms(7) by (auto simp add: ts tl computeTotalStars_def computeTopLanguages_sorted
        langCount_def)
  from r p1 p2 p3 p4 p5 p6 p7 show ?thesis by blast
qed

theorem GET_github_repo_statistics_witness:
  "\<exists>d. GET_github (Some (js ''octocat'')) (js ''2024-05-01'')
          \<lparr>userRes = Responded 200
             (Some \<lparr>public_repos = 4, GitHubUser.followers = 3, GitHubUser.following = 1\<rparr>),
           reposRes = Responded 200 (Some
             [\<lparr>stargazers_count = 5, language = Some (js ''Go'')\<rparr>,
              \<lparr>stargazers_count = 3, language = Some (js ''C'')\<rparr>,
              \<lparr>stargazers_count = 2, language = Some (js ''Go'')\<rparr>,
              \<lparr>stargazers_count = 1, language = None\<rparr>]),
           allYearsRes = Threw\<rparr> dateCollation = json (Data d) 200
        \<and> totalStars d = 11 \<and> length (topLanguages d) \<le> 5
        \<and> distinct (map fst (topLanguages d))"
proof -
  let ?user = "\<lparr>public_repos = 4, GitHubUser.followers = 3, GitHubUser.following = 1\<rparr>"
  let ?repos = "[\<lparr>stargazers_count = 5, language = Some (js ''Go'')\<rparr>,
              \<lparr>stargazers_count = 3, language = Some (js ''C'')\<rparr>,
              \<lparr>stargazers_count = 2, language = Some (js ''Go'')\<rparr>,
              \<lparr>stargazers_count = 1, language = None\<rparr>]"
  let ?up = "\<lparr>userRes = Responded 200 (Some ?user),
           reposRes = Responded 200 (Some ?repos), allYearsRes = Threw\<rparr>"
  have "\<exists>d. GET_github (Some (js ''octocat'')) (js ''2024-05-01'') ?up dateCollation
         = json (Data d) 200
     \<and> totalStars d = sum_list (map stargazers_count ?repos)
     \<and> length (topLanguages d) \<le> 5
     \<and> distinct (map fst (topLanguages d))
     \<and> (\<forall>(l, n) \<in> set (topLanguages d).
           Some l \<in> language ` set ?repos \<and> l \<noteq> [] \<and> n = repoCount ?repos l)
     \<and> sorted_wrt (\<ge>) (map snd (topLanguages d))
     \<and> (\<forall>l. l \<noteq> [] \<and> Some l \<in> language ` set ?repos \<and> l \<notin> fst ` set (topLanguages d)
           \<longrightarrow> length (topLanguages d) = 5
               \<and> (\<forall>(l', n') \<in> set (topLanguages d). repoCount ?repos l \<le> n'))
     \<and> (\<not> ok 200 \<longrightarrow> totalStars d = 0 \<and> topLanguages d = [])"
  proof (rule GET_github_repo_statistics)
    show "Some (js ''octocat'') = Some (js ''octocat'')" by simp
    show "js ''octocat'' \<noteq> []" by (simp add: js_def)
    show "userRes ?up = Responded 200 (Some ?user)" by simp
    show "ok 200" by (simp add: ok_def)
    show "reposRes ?up = Responded 200 (Some ?repos)" by simp
    show "Some ?repos = Some ?repos" by simp
    show "?repos = []" if "\<not> ok 200" using that by (simp add: ok_def)
    show "exactStars ?repos" by (simp add: exactStars_def)
    show "ordinaryLanguages ?repos"
      by (simp add: ordinaryLanguages_def ordinaryKey_def objectPrototypeNames_def js_def
          isDigit_def)
  qed
  then obtain d where
    "GET_github (Some (js ''octocat'')) (js ''2024-05-01'') ?up dateCollation
       = json (Data d) 200"
    "totalStars d = sum_list (map stargazers_count ?repos)"
    "length (topLanguages d) \<le> 5"
    "distinct (map fst (topLanguages d))"
    by blast
  then show ?thesis by (intro exI [of _ d]) simp
qed

section \<open>Streaks\<close>

lemma count_list_insertBy: "count_list (insertBy cmp x ys) z = count_list (x # ys) z"
  by (induction ys) auto

lemma count_list_sortBy: "count_list (sortBy cmp xs) z = count_list xs z"
  by (induction xs) (simp_all add: sortBy_def count_list_insertBy)

lemma set_insertBy: "set (insertBy cmp x ys) = insert x (set ys)"
  by (induction ys) auto

lemma set_sortBy: "set (sortBy cmp xs) = set xs"
  by (induction xs) (simp_all add: sortBy_def set_insertBy)

lemma length_insertBy: "length (insertBy cmp x ys) = Suc (length ys)"
  by (induction ys) simp_all

lemma length_sortBy: "length (sortBy cmp xs) = length xs"
  by (induction xs) (simp_all add: sortBy_def length_insertBy)

lemma distinct_map_insertBy:
  "distinct (map g (insertBy cmp x ys)) \<longleftrightarrow> distinct (map g (x # ys))"
  by (induction ys) (auto simp add: set_insertBy)

lemma distinct_map_sortBy: "distinct (map g (sortBy cmp xs)) \<longleftrightarrow> distinct (map g xs)"
  by (induction xs) (simp_all add: sortBy_def distinct_map_insertBy set_insertBy
      set_sortBy [unfolded sortBy_def])

lemma insertBy_insort_key_on:
  assumes "\<And>y. y \<in> set ys \<Longrightarrow> cmp x y \<le> 0 \<longleftrightarrow> f x \<le> f y"
  shows "insertBy cmp x ys = insort_key f x ys"
  using assms by (induction ys) simp_all

lemma sortBy_sort_key_on:
  assumes "\<And>x y. x \<in> set xs \<Longrightarrow> y \<in> set xs \<Longrightarrow> cmp x y \<le> 0 \<longleftrightarrow> f x \<le> f y"
  shows "sortBy cmp xs = sort_key f xs"
  using assms
proof (induction xs)
  case Nil
  show ?case by (simp add: sortBy_def)
next
  case (Cons x xs)
  have "sortBy cmp xs = sort_key f xs"
    by (rule Cons.IH) (simp add: Cons.prems)
  moreover have "insertBy cmp x (sort_key f xs) = insort_key f x (sort_key f xs)"
    by (rule insertBy_insort_key_on) (simp add: Cons.prems)
  moreover have "sortBy cmp (x # xs) = insertBy cmp x (sortBy cmp xs)"
    by (simp add: sortBy_def)
  ultimately show ?case by simp
qed

lemma sorted_wrt_insertBy:
  assumes total: "\<And>a b. cmp a b \<le> 0 \<or> cmp b a \<le> 0"
    and trans: "\<And>a b c. cmp a b \<le> 0 \<Longrightarrow> cmp b c \<le> 0 \<Longrightarrow> cmp a c \<le> 0"
  shows "sorted_wrt (\<lambda>a b. cmp a b \<le> 0) ys
         \<Longrightarrow> sorted_wrt (\<lambda>a b. cmp a b \<le> 0) (insertBy cmp x ys)"
proof (induction ys)
  case Nil
  show ?case by simp
next
  case (Cons y ys)
  show ?case
  proof (cases "cmp x y \<le> 0")
    case True
    have "cmp x z \<le> 0" if "z \<in> set (y # ys)" for z
    proof (cases "z = y")
      case True
      with \<open>cmp x y \<le> 0\<close> show ?thesis by simp
    next
      case False
      with that Cons.prems have "cmp y z \<le> 0" by simp
      with \<open>cmp x y \<le> 0\<close> show ?thesis by (rule trans)
    qed
    with True Cons.prems show ?thesis by simp
  next
    case False
    with total [of x y] have yx: "cmp y x \<le> 0" by simp
    have "cmp y z \<le> 0" if "z \<in> set (insertBy cmp x ys)" for z
      using that yx Cons.prems by (auto simp add: set_insertBy)
    moreover have "sorted_wrt (\<lambda>a b. cmp a b \<le> 0) (insertBy cmp x ys)"
      using Cons.prems by (intro Cons.IH) simp
    ultimately show ?thesis using False by simp
  qed
qed

lemma sorted_wrt_sortBy:
  assumes "\<And>a b. cmp a b \<le> 0 \<or> cmp b a \<le> 0"
    and "\<And>a b c. cmp a b \<le> 0 \<Longrightarrow> cmp b c \<le> 0 \<Longrightarrow> cmp a c \<le> 0"
  shows "sorted_wrt (\<lambda>a b. cmp a b \<le> 0) (sortBy cmp xs)"
proof (induction xs)
  case Nil
  show ?case by (simp add: sortBy_def)
next
  case (Cons x xs)
  have "sortBy cmp (x # xs) = insertBy cmp x (sortBy cmp xs)" by (simp add: sortBy_def)
  with sorted_wrt_insertBy [of cmp "sortBy cmp xs" x, OF assms Cons.IH]
  show ?case by simp
qed

lemma validContribs_count_list:
  "count_list (validContribs localeCompare today cs) c
     = count_list (filter (\<lambda>c. date c \<le> today) cs) c"
  by (simp add: validContribs_def count_list_sortBy)

lemma validContribs_set:
  "set (validContribs localeCompare today cs) = {c \<in> set cs. date c \<le> today}"
  by (simp add: validContribs_def set_sortBy)

lemma validContribs_length:
  "length (validContribs localeCompare today cs) = length (filter (\<lambda>c. date c \<le> today) cs)"
  by (simp add: validContribs_def length_sortBy)

lemma validContribs_distinct:
  "distinct (map date cs) \<Longrightarrow> distinct (map date (validContribs localeCompare today cs))"
  by (simp add: validContribs_def distinct_map_sortBy distinct_map_filter)

lemma validContribs_sorted_wrt:
  assumes "\<And>a b. localeCompare a b \<le> 0 \<or> localeCompare b a \<le> 0"
    and "\<And>a b c. localeCompare a b \<le> 0 \<Longrightarrow> localeCompare b c \<le> 0 \<Longrightarrow> localeCompare a c \<le> 0"
  shows "sorted_wrt (\<lambda>a b. localeCompare (date a) (date b) \<le> 0)
           (validContribs localeCompare today cs)"
  unfolding validContribs_def
proof (rule sorted_wrt_sortBy)
  show "localeCompare (date a) (date b) \<le> 0 \<or> localeCompare (date b) (date a) \<le> 0"
    for a b :: Contribution
    by (rule assms(1))
  show "localeCompare (date a) (date c) \<le> 0"
    if "localeCompare (date a) (date b) \<le> 0" "localeCompare (date b) (date c) \<le> 0"
    for a b c :: Contribution
    using that by (rule assms(2))
qed

lemma validContribs_sort_key:
  assumes "\<forall>c \<in> set cs. isoDate (date c)"
    and "\<And>a b. isoDate a \<Longrightarrow> isoDate b \<Longrightarrow> localeCompare a b \<le> 0 \<longleftrightarrow> a \<le> b"
  shows "validContribs localeCompare today cs
           = sort_key date (filter (\<lambda>c. date c \<le> today) cs)"
  unfolding validContribs_def
proof (rule sortBy_sort_key_on)
  fix x y
  assume "x \<in> set (filter (\<lambda>c. date c \<le> today) cs)"
    and "y \<in> set (filter (\<lambda>c. date c \<le> today) cs)"
  with assms(1) have "isoDate (date x)" "isoDate (date y)" by simp_all
  then show "localeCompare (date x) (date y) \<le> 0 \<longleftrightarrow> date x \<le> date y" by (rule assms(2))
qed

lemma validContribs_sorted:
  assumes "\<forall>c \<in> set cs. isoDate (date c)"
    and "\<And>a b. isoDate a \<Longrightarrow> isoDate b \<Longrightarrow> localeCompare a b \<le> 0 \<longleftrightarrow> a \<le> b"
  shows "sorted (map date (validContribs localeCompare today cs))"
  by (simp add: validContribs_sort_key [OF assms] sorted_sort_key)

lemma trailingRun_snoc:
  "trailingRun today (xs @ [x]) =
     (if count x > 0 then trailingRun today xs + 1
      else if date x \<noteq> today then 0
      else trailingRun today xs)"
proof (cases "count x > 0")
  case True
  then show ?thesis by (simp add: trailingRun_def positive_def)
next
  case False
  then show ?thesis
    by (cases "date x = today") (simp_all add: trailingRun_def positive_def)
qed

lemma currentStreakLoop_take:
  "k \<le> length v \<Longrightarrow>
   currentStreakLoop today v k t = t + trailingRun today (take k v)"
proof (induction k arbitrary: t)
  case 0
  show ?case by (simp add: trailingRun_def)
next
  case (Suc k)
  then have "take (Suc k) v = take k v @ [v ! k]"
    by (simp add: take_Suc_conv_app_nth)
  with Suc show ?case by (simp add: trailingRun_snoc)
qed

lemma currentStreakLoop_trailingRun:
  "currentStreakLoop today v (length v) 0 = trailingRun today v"
  by (simp add: currentStreakLoop_take)

lemma longestStreakLoop_lower: "l \<le> longestStreakLoop v s l"
proof (induction v arbitrary: s l)
  case Nil
  show ?case by simp
next
  case (Cons c cs)
  show ?case
  proof (cases "count c > 0")
    case True
    have "max l (s + 1) \<le> longestStreakLoop cs (s + 1) (max l (s + 1))" by (rule Cons.IH)
    with True show ?thesis by simp
  next
    case False
    with Cons.IH [of l 0] show ?thesis by simp
  qed
qed

lemma longestStreakLoop_prefix:
  "prefix p v \<Longrightarrow> p \<noteq> [] \<Longrightarrow> list_all positive p \<Longrightarrow>
   s + length p \<le> longestStreakLoop v s l"
proof (induction v arbitrary: s l p)
  case Nil
  then show ?case by simp
next
  case (Cons c cs)
  from Cons.prems obtain q where p: "p = c # q" and q: "prefix q cs"
    by (cases p) auto
  from Cons.prems p have "positive c" and allq: "list_all positive q"
    by simp_all
  then have pos: "count c > 0" by (simp add: positive_def)
  show ?case
  proof (cases "q = []")
    case True
    have "max l (s + 1) \<le> longestStreakLoop cs (s + 1) (max l (s + 1))"
      by (rule longestStreakLoop_lower)
    with pos p True show ?thesis by simp
  next
    case False
    from Cons.IH [OF q False allq, of "s + 1" "max l (s + 1)"] pos p
    show ?thesis by simp
  qed
qed

lemma longestStreakLoop_upper:
  "sublist ys v \<Longrightarrow> list_all positive ys \<Longrightarrow> length ys \<le> longestStreakLoop v s l"
proof (induction v arbitrary: s l)
  case Nil
  then show ?case by simp
next
  case (Cons c cs)
  from Cons.prems(1) consider "ys = []" | "ys \<noteq> []" "prefix ys (c # cs)" | "sublist ys cs"
    by (auto simp add: sublist_Cons_right)
  then show ?case
  proof cases
    case 1
    then show ?thesis by simp
  next
    case 2
    from longestStreakLoop_prefix [OF 2(2) 2(1) Cons.prems(2), of s l]
    show ?thesis by simp
  next
    case 3
    from Cons.IH [OF 3 Cons.prems(2)] show ?thesis by simp
  qed
qed

lemma longestStreakLoop_attained:
  "longestStreakLoop v s l = l
   \<or> (\<exists>p. prefix p v \<and> p \<noteq> [] \<and> list_all positive p
          \<and> longestStreakLoop v s l = s + length p)
   \<or> (\<exists>ys. sublist ys v \<and> list_all positive ys \<and> longestStreakLoop v s l = length ys)"
proof (induction v arbitrary: s l)
  case Nil
  show ?case by simp
next
  case (Cons c cs)
  show ?case
  proof (cases "count c > 0")
    case True
    let ?R = "longestStreakLoop cs (s + 1) (max l (s + 1))"
    have R: "longestStreakLoop (c # cs) s l = ?R" using True by simp
    from Cons.IH [of "s + 1" "max l (s + 1)"]
    consider "?R = max l (s + 1)"
      | p where "prefix p cs" "p \<noteq> []" "list_all positive p" "?R = s + 1 + length p"
      | ys where "sublist ys cs" "list_all positive ys" "?R = length ys"
      by blast
    then show ?thesis
    proof cases
      case 1
      show ?thesis
      proof (cases "l \<le> s + 1")
        case False
        with 1 R show ?thesis by simp
      next
        case le: True
        have "prefix [c] (c # cs) \<and> [c] \<noteq> [] \<and> list_all positive [c]
              \<and> longestStreakLoop (c # cs) s l = s + length [c]"
          using 1 R le True by (simp add: positive_def)
        then show ?thesis by blast
      qed
    next
      case 2
      have "prefix (c # p) (c # cs) \<and> c # p \<noteq> [] \<and> list_all positive (c # p)
              \<and> longestStreakLoop (c # cs) s l = s + length (c # p)"
        using 2 R True by (simp add: positive_def)
      then show ?thesis by blast
    next
      case 3
      have "sublist ys (c # cs)" using 3(1) by (simp add: sublist_Cons_right)
      with 3 R show ?thesis by auto
    qed
  next
    case False
    let ?R = "longestStreakLoop cs 0 l"
    have R: "longestStreakLoop (c # cs) s l = ?R" using False by simp
    from Cons.IH [of 0 l]
    consider "?R = l"
      | p where "prefix p cs" "p \<noteq> []" "list_all positive p" "?R = length p"
      | ys where "sublist ys cs" "list_all positive ys" "?R = length ys"
      by auto
    then show ?thesis
    proof cases
      case 1
      with R show ?thesis by simp
    next
      case 2
      have "sublist p (c # cs)" using 2(1) by (simp add: sublist_Cons_right prefix_imp_sublist)
      with 2 R show ?thesis by auto
    next
      case 3
      have "sublist ys (c # cs)" using 3(1) by (simp add: sublist_Cons_right)
      with 3 R show ?thesis by auto
    qed
  qed
qed

lemma longestRun_upper:
  assumes "sublist ys v" and "list_all positive ys"
  shows "length ys \<le> longestRun v"
proof -
  have "length ys \<in> set (map length (filter (list_all positive) (sublists v)))"
    using assms by force
  then show ?thesis
    unfolding longestRun_def by (rule Max_ge [OF finite_set])
qed

lemma longestStreakLoop_longestRun: "longestStreakLoop v 0 0 = longestRun v"
proof -
  let ?R = "longestStreakLoop v 0 0"
  from longestStreakLoop_attained [of v 0 0]
  consider "?R = 0"
    | p where "prefix p v" "list_all positive p" "?R = length p"
    | ys where "sublist ys v" "list_all positive ys" "?R = length ys"
    by auto
  then have "\<exists>ys. sublist ys v \<and> list_all positive ys \<and> ?R = length ys"
  proof cases
    case 1
    then have "sublist [] v \<and> list_all positive [] \<and> ?R = length ([] :: Contribution list)"
      by simp
    then show ?thesis by blast
  next
    case 2
    then show ?thesis by (auto intro: prefix_imp_sublist)
  next
    case 3
    then show ?thesis by blast
  qed
  then have mem: "?R \<in> set (map length (filter (list_all positive) (sublists v)))"
    by auto
  have "Max (set (map length (filter (list_all positive) (sublists v)))) = ?R"
  proof (rule Max_eqI)
    show "finite (set (map length (filter (list_all positive) (sublists v))))"
      by (rule finite_set)
    show "y \<le> ?R" if "y \<in> set (map length (filter (list_all positive) (sublists v)))" for y
      using that longestStreakLoop_upper [of _ v 0 0] by auto
    show "?R \<in> set (map length (filter (list_all positive) (sublists v)))" by (rule mem)
  qed
  then show ?thesis by (simp add: longestRun_def)
qed

lemma streaks_spec:
  "streaks localeCompare today cs
     = (trailingRun today (validContribs localeCompare today cs),
        longestRun (validContribs localeCompare today cs))"
  by (simp add: streaks_def Let_def currentStreakLoop_trailingRun longestStreakLoop_longestRun)

lemma contributionStats_present:
  assumes "ok cst" and "contributions allYearsData = Some cs"
  shows "snd (contributionStats localeCompare today (Responded cst (Some allYearsData)))
           = streaks localeCompare today cs"
  using assms by (simp add: contributionStats_def)

lemma GET_github_streaks_of:
  assumes "username = Some u" and "u \<noteq> []"
    and "userRes up = Responded st (Some userData)" and "ok st"
    and "reposRes up = Responded rst rp" and "ok rst \<Longrightarrow> rp \<noteq> None"
    and "allYearsRes up = Responded cst (Some allYearsData)" and "ok cst"
    and "contributions allYearsData = Some cs"
  shows "\<exists>d. GET_github username today up localeCompare = json (Data d) 200
     \<and> currentStreak d = trailingRun today (validContribs localeCompare today cs)
     \<and> longestStreak d = longestRun (validContribs localeCompare today cs)"
proof -
  define repos where "repos = (if ok rst then the rp else [])"
  have a: "ok rst \<Longrightarrow> rp = Some repos" and b: "\<not> ok rst \<Longrightarrow> repos = []"
    using assms(6) by (auto simp add: repos_def)
  define d where "d =
       \<lparr>publicRepos = public_repos userData,
        GitHubStats.followers = GitHubUser.followers userData,
        GitHubStats.following = GitHubUser.following userData,
        totalStars = computeTotalStars repos,
        topLanguages = computeTopLanguages repos,
        totalContributions = fst (contributionStats localeCompare today (allYearsRes up)),
        currentStreak = fst (snd (contributionStats localeCompare today (allYearsRes up))),
        longestStreak = snd (snd (contributionStats localeCompare today (allYearsRes up)))\<rparr>"
  have r: "GET_github username today up localeCompare = json (Data d) 200"
    unfolding d_def by (rule GET_github_success [OF assms(1-5) a b])
  have "(currentStreak d, longestStreak d)
          = snd (contributionStats localeCompare today (allYearsRes up))"
    by (simp add: d_def)
  also have "\<dots> = streaks localeCompare today cs"
    using contributionStats_present [OF assms(8,9)] assms(7) by simp
  finally have "currentStreak d = trailingRun today (validContribs localeCompare today cs)
     \<and> longestStreak d = longestRun (validContribs localeCompare today cs)"
    by (simp add: streaks_spec)
  with r show ?thesis by blast
qed

lemma longestRun_le_length: "longestRun v \<le> length v"
proof -
  have "[] \<in> set (filter (list_all positive) (sublists v))" by simp
  then have "set (map length (filter (list_all positive) (sublists v))) \<noteq> {}"
    by fastforce
  then have "longestRun v \<in> set (map length (filter (list_all positive) (sublists v)))"
    unfolding longestRun_def by (rule Max_in [OF finite_set])
  then obtain ys where "sublist ys v" "longestRun v = length ys" by auto
  then show ?thesis by (auto dest: sublist_length_le)
qed

lemma trailingRun_all_positive:
  assumes "\<forall>c \<in> set xs. date c \<noteq> today"
  shows "trailingRun today xs = length (takeWhile positive (rev xs))"
proof -
  have "takeWhile (\<lambda>c. positive c \<or> date c = today) (rev xs) = takeWhile positive (rev xs)"
    using assms by (intro takeWhile_cong) auto
  moreover have "filter positive (takeWhile positive (rev xs)) = takeWhile positive (rev xs)"
    by (simp add: filter_id_conv) (meson set_takeWhileD)
  ultimately show ?thesis by (simp add: trailingRun_def)
qed

lemma trailingRun_le_longestRun:
  assumes "sorted (map date v)" and "distinct (map date v)"
    and "\<forall>c \<in> set v. date c \<le> today"
  shows "trailingRun today v \<le> longestRun v"
proof (cases v rule: rev_cases)
  case Nil
  then show ?thesis by (simp add: trailingRun_def)
next
  case (snoc xs x)
  have earlier: "\<forall>c \<in> set xs. date c \<noteq> today"
  proof
    fix c assume c: "c \<in> set xs"
    with assms(1) snoc have "date c \<le> date x" by (auto simp add: sorted_append)
    moreover have "date c \<noteq> date x"
    proof -
      from assms(2) snoc have "date x \<notin> date ` set xs" by simp
      with c show ?thesis by (metis imageI)
    qed
    moreover from assms(3) snoc have "date x \<le> today" by simp
    ultimately show "date c \<noteq> today" by auto
  qed
  define w where "w = rev (takeWhile positive (rev xs))"
  have run: "trailingRun today xs = length w"
    by (simp add: w_def trailingRun_all_positive [OF earlier])
  have posw: "list_all positive w"
    by (auto simp add: w_def list_all_iff dest: set_takeWhileD)
  have "suffix w xs"
    by (simp add: w_def suffix_to_prefix takeWhile_is_prefix)
  then obtain ps where xs: "xs = ps @ w" by (auto simp add: suffix_def)
  show ?thesis
  proof (cases "count x > 0")
    case True
    have "sublist (w @ [x]) v" using snoc xs by (auto simp add: sublist_def)
    moreover have "list_all positive (w @ [x])" using posw True by (simp add: positive_def)
    ultimately have "length (w @ [x]) \<le> longestRun v" by (rule longestRun_upper)
    with True snoc run show ?thesis by (simp add: trailingRun_snoc)
  next
    case False
    have "sublist w v" using snoc xs by (auto simp add: sublist_def)
    then have "length w \<le> longestRun v" using posw by (rule longestRun_upper)
    with False snoc run show ?thesis by (simp add: trailingRun_snoc)
  qed
qed

subsection \<open>The default collation on dates\<close>

lemma dateCollation_le:
  "dateCollation a b \<le> 0 \<longleftrightarrow> map collationKey a \<le> map collationKey b"
  by (auto simp add: dateCollation_def)

lemma dateCollation_total: "dateCollation a b \<le> 0 \<or> dateCollation b a \<le> 0"
  unfolding dateCollation_le by (rule linear)

lemma dateCollation_trans:
  "dateCollation a b \<le> 0 \<Longrightarrow> dateCollation b c \<le> 0 \<Longrightarrow> dateCollation a c \<le> 0"
  unfolding dateCollation_le by (rule order_trans)

lemma collationKey_date_chars:
  assumes "isDigit x \<or> x = 0x2D" and "isDigit y \<or> y = 0x2D"
  shows "collationKey x < collationKey y \<longleftrightarrow> x < y"
    and "collationKey x = collationKey y \<longleftrightarrow> x = y"
  using assms
  by (auto simp add: collationKey_def isDigit_def word_le_nat_alt word_less_nat_alt
      word_unat_eq_iff)

lemma collation_keys_date_chars:
  assumes "list_all (\<lambda>c. isDigit c \<or> c = 0x2D) a"
    and "list_all (\<lambda>c. isDigit c \<or> c = 0x2D) b"
  shows "map collationKey a \<le> map collationKey b \<longleftrightarrow> a \<le> b"
  using assms
proof (induction a arbitrary: b)
  case Nil
  show ?case by simp
next
  case (Cons x a)
  show ?case
  proof (cases b)
    case Nil
    then show ?thesis by simp
  next
    case (Cons y b')
    with Cons.prems have x: "isDigit x \<or> x = 0x2D" and y: "isDigit y \<or> y = 0x2D"
      and a: "list_all (\<lambda>c. isDigit c \<or> c = 0x2D) a"
      and b': "list_all (\<lambda>c. isDigit c \<or> c = 0x2D) b'"
      by simp_all
    from Cons.IH [OF a b'] collationKey_date_chars [OF x y] Cons
    show ?thesis by simp
  qed
qed

lemma isoDate_chars:
  assumes "isoDate s"
  shows "list_all (\<lambda>c. isDigit c \<or> c = 0x2D) s"
proof -
  from assms have "length s = 10" by (simp add: isoDate_def)
  then obtain a0 a1 a2 a3 a4 a5 a6 a7 a8 a9 where "s = [a0, a1, a2, a3, a4, a5, a6, a7, a8, a9]"
    by (auto simp add: length_Suc_conv eval_nat_numeral)
  with assms show ?thesis by (simp add: isoDate_def)
qed

lemma dateCollation_isoDate:
  assumes "isoDate a" and "isoDate b"
  shows "dateCollation a b \<le> 0 \<longleftrightarrow> a \<le> b"
  unfolding dateCollation_le
  by (rule collation_keys_date_chars) (rule isoDate_chars, fact)+

subsection \<open>The two streaks\<close>

text \<open>
  C3. When the handler answers with statistics and the contributions response is OK with
  a \<open>contributions\<close> list, the list the streaks are computed over holds exactly the
  entries that are not dated after today. It is in ascending order of \<open>localeCompare\<close>
  whenever that function is a consistent comparator, and in ascending order of date when
  the dates are \<open>YYYY-MM-DD\<close>, as the contributions API writes them, and \<open>localeCompare\<close>
  orders such dates as their code units do. \<open>longestStreak\<close> is the length of the longest
  run of consecutive entries with a positive count, and \<open>currentStreak\<close> counts the
  entries with a positive count going back from the last entry, where an entry without
  contributions ends the scan unless it is dated today.
\<close>

theorem GET_github_streaks:
  assumes "username = Some u" and "u \<noteq> []"
    and "userRes up = Responded st (Some userData)" and "ok st"
    and "reposRes up = Responded rst rp" and "ok rst \<Longrightarrow> rp \<noteq> None"
    and "allYearsRes up = Responded cst (Some allYearsData)" and "ok cst"
    and "contributions allYearsData = Some cs"
  shows "\<exists>d. GET_github username today up localeCompare = json (Data d) 200
     \<and> (\<forall>c. count_list (validContribs localeCompare today cs) c
              = count_list (filter (\<lambda>c. date c \<le> today) cs) c)
     \<and> ((\<forall>a b. localeCompare a b \<le> 0 \<or> localeCompare b a \<le> 0)
          \<and> (\<forall>a b c. localeCompare a b \<le> 0 \<and> localeCompare b c \<le> 0
                \<longrightarrow> localeCompare a c \<le> 0)
         \<longrightarrow> sorted_wrt (\<lambda>a b. localeCompare (date a) (date b) \<le> 0)
               (validContribs localeCompare today cs))
     \<and> ((\<forall>c \<in> set cs. isoDate (date c))
          \<and> (\<forall>a b. isoDate a \<and> isoDate b \<longrightarrow> (localeCompare a b \<le> 0 \<longleftrightarrow> a \<le> b))
         \<longrightarrow> sorted (map date (validContribs localeCompare today cs)))
     \<and> currentStreak d = trailingRun today (validContribs localeCompare today cs)
     \<and> longestStreak d = longestRun (validContribs localeCompare today cs)"
proof -
  from GET_github_streaks_of [OF assms, of today localeCompare]
  obtain d where d: "GET_github username today up localeCompare = json (Data d) 200"
    "currentStreak d = trailingRun today (validContribs localeCompare today cs)"
    "longestStreak d = longestRun (validContribs localeCompare today cs)"
    by blast
  have perm: "\<forall>c. count_list (validContribs localeCompare today cs) c
              = count_list (filter (\<lambda>c. date c \<le> today) cs) c"
    by (simp add: validContribs_count_list)
  have byCollation: "(\<forall>a b. localeCompare a b \<le> 0 \<or> localeCompare b a \<le> 0)
          \<and> (\<forall>a b c. localeCompare a b \<le> 0 \<and> localeCompare b c \<le> 0
                \<longrightarrow> localeCompare a c \<le> 0)
         \<longrightarrow> sorted_wrt (\<lambda>a b. localeCompare (date a) (date b) \<le> 0)
               (validContribs localeCompare today cs)"
  proof (intro impI, elim conjE)
    assume t: "\<forall>a b. localeCompare a b \<le> 0 \<or> localeCompare b a \<le> 0"
      and tr: "\<forall>a b c. localeCompare a b \<le> 0 \<and> localeCompare b c \<le> 0
                \<longrightarrow> localeCompare a c \<le> 0"
    show "sorted_wrt (\<lambda>a b. localeCompare (date a) (date b) \<le> 0)
               (validContribs localeCompare today cs)"
    proof (rule validContribs_sorted_wrt)
      show "localeCompare a b \<le> 0 \<or> localeCompare b a \<le> 0" for a b using t by blast
      show "localeCompare a c \<le> 0" if "localeCompare a b \<le> 0" "localeCompare b c \<le> 0"
        for a b c using that tr by blast
    qed
  qed
  have byDate: "(\<forall>c \<in> set cs. isoDate (date c))
          \<and> (\<forall>a b. isoDate a \<and> isoDate b \<longrightarrow> (localeCompare a b \<le> 0 \<longleftrightarrow> a \<le> b))
         \<longrightarrow> sorted (map date (validContribs localeCompare today cs))"
  proof (intro impI, elim conjE)
    assume i: "\<forall>c \<in> set cs. isoDate (date c)"
      and ag: "\<forall>a b. isoDate a \<and> isoDate b \<longrightarrow> (localeCompare a b \<le> 0 \<longleftrightarrow> a \<le> b)"
    show "sorted (map date (validContribs localeCompare today cs))"
    proof (rule validContribs_sorted [OF i])
      show "localeCompare a b \<le> 0 \<longleftrightarrow> a \<le> b" if "isoDate a" "isoDate b" for a b
        using that ag by blast
    qed
  qed
  from d perm byCollation byDate show ?thesis by blast
qed

theorem GET_github_streaks_witness:
  "\<exists>d. GET_github (Some (js ''octocat'')) (js ''2024-05-01'')
          \<lparr>userRes = Responded 200
             (Some \<lparr>public_repos = 4, GitHubUser.followers = 3, GitHubUser.following = 1\<rparr>),
           reposRes = Responded 200 (Some []),
           allYearsRes = Responded 200 (Some \<lparr>total = None, contributions = Some
             [\<lparr>date = js ''2024-05-02'', count = 7\<rparr>,
              \<lparr>date = js ''2024-05-01'', count = 0\<rparr>,
              \<lparr>date = js ''2024-04-29'', count = 0\<rparr>,
              \<lparr>date = js ''2024-04-30'', count = 2\<rparr>,
              \<lparr>date = js ''2024-04-27'', count = 4\<rparr>,
              \<lparr>date = js ''2024-04-28'', count = 1\<rparr>]\<rparr>)\<rparr> dateCollation
         = json (Data d) 200
        \<and> currentStreak d = 1 \<and> longestStreak d = 2
        \<and> sorted (map date (validContribs dateCollation (js ''2024-05-01'')
             [\<lparr>date = js ''2024-05-02'', count = 7\<rparr>,
              \<lparr>date = js ''2024-05-01'', count = 0\<rparr>,
              \<lparr>date = js ''2024-04-29'', count = 0\<rparr>,
              \<lparr>date = js ''2024-04-30'', count = 2\<rparr>,
              \<lparr>date = js ''2024-04-27'', count = 4\<rparr>,
              \<lparr>date = js ''2024-04-28'', count = 1\<rparr>]))"
proof -
  let ?user = "\<lparr>public_repos = 4, GitHubUser.followers = 3, GitHubUser.following = 1\<rparr>"
  let ?cs = "[\<lparr>date = js ''2024-05-02'', count = 7\<rparr>,
              \<lparr>date = js ''2024-05-01'', count = 0\<rparr>,
              \<lparr>date = js ''2024-04-29'', count = 0\<rparr>,
              \<lparr>date = js ''2024-04-30'', count = 2\<rparr>,
              \<lparr>date = js ''2024-04-27'', count = 4\<rparr>,
              \<lparr>date = js ''2024-04-28'', count = 1\<rparr>]"
  let ?data = "\<lparr>total = None, contributions = Some ?cs\<rparr>"
  let ?up = "\<lparr>userRes = Responded 200 (Some ?user),
           reposRes = Responded 200 (Some []),
           allYearsRes = Responded 200 (Some ?data)\<rparr>"
  let ?today = "js ''2024-05-01''"
  let ?v = "validContribs dateCollation ?today ?cs"
  have v: "?v =
             [\<lparr>date = js ''2024-04-27'', count = 4\<rparr>,
              \<lparr>date = js ''2024-04-28'', count = 1\<rparr>,
              \<lparr>date = js ''2024-04-29'', count = 0\<rparr>,
              \<lparr>date = js ''2024-04-30'', count = 2\<rparr>,
              \<lparr>date = js ''2024-05-01'', count = 0\<rparr>]"
    by (simp add: validContribs_def sortBy_def dateCollation_def collationKey_def
        isDigit_def js_def)
  have "\<exists>d. GET_github (Some (js ''octocat'')) ?today ?up dateCollation = json (Data d) 200
     \<and> (\<forall>c. count_list ?v c = count_list (filter (\<lambda>c. date c \<le> ?today) ?cs) c)
     \<and> ((\<forall>a b. dateCollation a b \<le> 0 \<or> dateCollation b a \<le> 0)
          \<and> (\<forall>a b c. dateCollation a b \<le> 0 \<and> dateCollation b c \<le> 0
                \<longrightarrow> dateCollation a c \<le> 0)
         \<longrightarrow> sorted_wrt (\<lambda>a b. dateCollation (date a) (date b) \<le> 0) ?v)
     \<and> ((\<forall>c \<in> set ?cs. isoDate (date c))
          \<and> (\<forall>a b. isoDate a \<and> isoDate b \<longrightarrow> (dateCollation a b \<le> 0 \<longleftrightarrow> a \<le> b))
         \<longrightarrow> sorted (map date ?v))
     \<and> currentStreak d = trailingRun ?today ?v
     \<and> longestStreak d = longestRun ?v"
  proof (rule GET_github_streaks)
    show "Some (js ''octocat'') = Some (js ''octocat'')" by simp
    show "js ''octocat'' \<noteq> []" by (simp add: js_def)
    show "userRes ?up = Responded 200 (Some ?user)" by simp
    show "ok 200" by (simp add: ok_def)
    show "reposRes ?up = Responded 200 (Some [])" by simp
    show "Some ([] :: GitHubRepo list) \<noteq> None" by simp
    show "allYearsRes ?up = Responded 200 (Some ?data)" by simp
    show "ok 200" by (simp add: ok_def)
    show "contributions ?data = Some ?cs" by simp
  qed
  then obtain d where d: "GET_github (Some (js ''octocat'')) ?today ?up dateCollation
       = json (Data d) 200"
    "(\<forall>c \<in> set ?cs. isoDate (date c))
          \<and> (\<forall>a b. isoDate a \<and> isoDate b \<longrightarrow> (dateCollation a b \<le> 0 \<longleftrightarrow> a \<le> b))
         \<longrightarrow> sorted (map date ?v)"
    "currentStreak d = trailingRun ?today ?v"
    "longestStreak d = longestRun ?v"
    by blast
  have iso: "\<forall>c \<in> set ?cs. isoDate (date c)"
    by (simp add: isoDate_def isDigit_def js_def)
  have agree: "\<forall>a b. isoDate a \<and> isoDate b \<longrightarrow> (dateCollation a b \<le> 0 \<longleftrightarrow> a \<le> b)"
    by (simp add: dateCollation_isoDate)
  from d(2) iso agree have s: "sorted (map date ?v)" by blast
  have "currentStreak d = 1"
    unfolding d(3) v by (simp add: trailingRun_def positive_def js_def)
  moreover have "longestStreak d = 2"
    unfolding d(4) v by (simp add: longestRun_def positive_def)
  ultimately show ?thesis using d(1) s by (intro exI [of _ d]) simp
qed

subsection \<open>Bounds on the streaks\<close>

text \<open>
  C10, as the claim states it, fails. The three entries below have pairwise distinct date
  strings. The string \<open>2024,05-01\<close> is not after today by code units, since the comma is the
  code unit before the hyphen, so the filter keeps it; the collation puts the hyphen
  before the comma, so the sort puts it after the entry dated today. The backward scan
  counts it, skips today's empty entry and counts the entry of the day before:
  \<open>currentStreak\<close> is 2 and \<open>longestStreak\<close> is 1.
\<close>

theorem collation_streak_counterexample:
  "distinct (map date
     [\<lparr>date = js ''2024-04-30'', count = 1\<rparr>,
      \<lparr>date = js ''2024-05-01'', count = 0\<rparr>,
      \<lparr>date = js ''2024,05-01'', count = 1\<rparr>])
   \<and> GET_github (Some (js ''octocat'')) (js ''2024-05-01'')
        \<lparr>userRes = Responded 200
           (Some \<lparr>public_repos = 4, GitHubUser.followers = 3, GitHubUser.following = 1\<rparr>),
         reposRes = Responded 200 (Some []),
         allYearsRes = Responded 200 (Some \<lparr>total = None, contributions = Some
           [\<lparr>date = js ''2024-04-30'', count = 1\<rparr>,
            \<lparr>date = js ''2024-05-01'', count = 0\<rparr>,
            \<lparr>date = js ''2024,05-01'', count = 1\<rparr>]\<rparr>)\<rparr> dateCollation
      = json (Data \<lparr>publicRepos = 4, GitHubStats.followers = 3, GitHubStats.following = 1,
                    totalStars = 0, topLanguages = [], totalContributions = 0,
                    currentStreak = 2, longestStreak = 1\<rparr>) 200"
  by (simp add: ok_def GET_github_def truthy_def js_def contributionStats_def streaks_def
      validContribs_def sortBy_def dateCollation_def collationKey_def isDigit_def
      computeTotalStars_def computeTopLanguages_def langCount_def slice_def json_def)

text \<open>
  C10, amended. When moreover no two entries of the contributions list have the same
  date, every date is of the form \<open>YYYY-MM-DD\<close>, and \<open>localeCompare\<close> orders dates of that
  form as their code units do, then \<open>0 \<le> currentStreak \<le> longestStreak\<close>, and
  \<open>longestStreak\<close> is at most the number of entries that are not dated after today.
\<close>

theorem GET_github_streak_bounds:
  assumes "username = Some u" and "u \<noteq> []"
    and "userRes up = Responded st (Some userData)" and "ok st"
    and "reposRes up = Responded rst rp" and "ok rst \<Longrightarrow> rp \<noteq> None"
    and "allYearsRes up = Responded cst (Some allYearsData)" and "ok cst"
    and "contributions allYearsData = Some cs"
    and "distinct (map date cs)"
    and "\<forall>c \<in> set cs. isoDate (date c)"
    and "\<And>a b. isoDate a \<Longrightarrow> isoDate b \<Longrightarrow> localeCompare a b \<le> 0 \<longleftrightarrow> a \<le> b"
  shows "\<exists>d. GET_github username today up localeCompare = json (Data d) 200
     \<and> 0 \<le> currentStreak d
     \<and> currentStreak d \<le> longestStreak d
     \<and> longestStreak d \<le> length (filter (\<lambda>c. date c \<le> today) cs)"
proof -
  let ?v = "validContribs localeCompare today cs"
  from GET_github_streaks_of [OF assms(1-9), of today localeCompare]
  obtain d where r: "GET_github username today up localeCompare = json (Data d) 200"
    and cur: "currentStreak d = trailingRun today ?v"
    and lng: "longestStreak d = longestRun ?v"
    by blast
  have "trailingRun today ?v \<le> longestRun ?v"
  proof (rule trailingRun_le_longestRun)
    show "sorted (map date ?v)" by (rule validContribs_sorted [OF assms(11,12)])
    show "distinct (map date ?v)" using assms(10) by (rule validContribs_distinct)
    show "\<forall>c \<in> set ?v. date c \<le> today" by (simp add: validContribs_set)
  qed
  moreover have "longestRun ?v \<le> length (filter (\<lambda>c. date c \<le> today) cs)"
    using longestRun_le_length [of ?v] by (simp add: validContribs_length)
  ultimately show ?thesis using r cur lng by auto
qed

theorem GET_github_streak_bounds_witness:
  "\<exists>d. GET_github (Some (js ''octocat'')) (js ''2024-05-01'')
          \<lparr>userRes = Responded 200
             (Some \<lparr>public_repos = 4, GitHubUser.followers = 3, GitHubUser.following = 1\<rparr>),
           reposRes = Responded 404 None,
           allYearsRes = Responded 200 (Some \<lparr>total = None, contributions = Some
             [\<lparr>date = js ''2024-05-02'', count = 7\<rparr>,
              \<lparr>date = js ''2024-05-01'', count = 0\<rparr>,
              \<lparr>date = js ''2024-04-30'', count = 2\<rparr>]\<rparr>)\<rparr> dateCollation
         = json (Data d) 200
        \<and> currentStreak d \<le> longestStreak d \<and> longestStreak d \<le> 2"
proof -
  let ?user = "\<lparr>public_repos = 4, GitHubUser.followers = 3, GitHubUser.following = 1\<rparr>"
  let ?cs = "[\<lparr>date = js ''2024-05-02'', count = 7\<rparr>,
              \<lparr>date = js ''2024-05-01'', count = 0\<rparr>,
              \<lparr>date = js ''2024-04-30'', count = 2\<rparr>]"
  let ?data = "\<lparr>total = None, contributions = Some ?cs\<rparr>"
  let ?up = "\<lparr>userRes = Responded 200 (Some ?user),
           reposRes = Responded 404 None,
           allYearsRes = Responded 200 (Some ?data)\<rparr>"
  let ?today = "js ''2024-05-01''"
  have "\<exists>d. GET_github (Some (js ''octocat'')) ?today ?up dateCollation = json (Data d) 200
     \<and> 0 \<le> currentStreak d
     \<and> currentStreak d \<le> longestStreak d
     \<and> longestStreak d \<le> length (filter (\<lambda>c. date c \<le> ?today) ?cs)"
  proof (rule GET_github_streak_bounds)
    show "Some (js ''octocat'') = Some (js ''octocat'')" by simp
    show "js ''octocat'' \<noteq> []" by (simp add: js_def)
    show "userRes ?up = Responded 200 (Some ?user)" by simp
    show "ok 200" by (simp add: ok_def)
    show "reposRes ?up = Responded 404 None" by simp
    show "(None :: GitHubRepo list option) \<noteq> None" if "ok 404"
      using that by (simp add: ok_def)
    show "allYearsRes ?up = Responded 200 (Some ?data)" by simp
    show "ok 200" by (simp add: ok_def)
    show "contributions ?data = Some ?cs" by simp
    show "distinct (map date ?cs)" by (simp add: js_def)
    show "\<forall>c \<in> set ?cs. isoDate (date c)" by (simp add: isoDate_def isDigit_def js_def)
    show "dateCollation a b \<le> 0 \<longleftrightarrow> a \<le> b" if "isoDate a" "isoDate b" for a b
      using that by (rule dateCollation_isoDate)
  qed
  then obtain d where d: "GET_github (Some (js ''octocat'')) ?today ?up dateCollation
       = json (Data d) 200"
    "currentStreak d \<le> longestStreak d"
    "longestStreak d \<le> length (filter (\<lambda>c. date c \<le> ?today) ?cs)"
    by blast
  have "length (filter (\<lambda>c. date c \<le> ?today) ?cs) = 2" by (simp add: js_def)
  with d show ?thesis by (intro exI [of _ d]) simp
qed

section \<open>Network graph\<close>

lemma in_concat_map: "x \<in> set (concat (map f xs)) \<longleftrightarrow> (\<exists>y \<in> set xs. x \<in> set (f y))"
  by auto

lemma connectionsOf_joins_visible:
  assumes "c \<in> set (connectionsOf visible)"
  shows "\<exists>a \<in> set visible. \<exists>b \<in> set visible.
           start c = position a \<and> end' c = position b
           \<and> NodeData.id' b \<in> set (connections a)
           \<and> key c = NodeData.id' a @ ''-'' @ NodeData.id' b"
proof -
  from assms obtain node targetId where node: "node \<in> set visible"
    and target: "targetId \<in> set (connections node)"
    and c: "c \<in> set (if targetId \<notin> set (map NodeData.id' visible) then []
             else (case find (\<lambda>n. NodeData.id' n = targetId) visible of
                     None \<Rightarrow> []
                   | Some targetNode \<Rightarrow>
                       [\<lparr>start = position node, end' = position targetNode,
                         key = NodeData.id' node @ ''-'' @ targetId\<rparr>]))"
    unfolding connectionsOf_def Let_def in_concat_map by blast
  from c have present: "targetId \<in> set (map NodeData.id' visible)"
    by (cases "targetId \<in> set (map NodeData.id' visible)") simp_all
  with c obtain targetNode
    where f: "find (\<lambda>n. NodeData.id' n = targetId) visible = Some targetNode"
      and ceq: "c = \<lparr>start = position node, end' = position targetNode,
                   key = NodeData.id' node @ ''-'' @ targetId\<rparr>"
    by (cases "find (\<lambda>n. NodeData.id' n = targetId) visible") simp_all
  from f have tn: "targetNode \<in> set visible" and tid: "NodeData.id' targetNode = targetId"
    by (auto simp add: find_Some_iff)
  have "start c = position node \<and> end' c = position targetNode
        \<and> NodeData.id' targetNode \<in> set (connections node)
        \<and> key c = NodeData.id' node @ ''-'' @ NodeData.id' targetNode"
    using target tid ceq by simp
  with node tn show ?thesis by blast
qed

text \<open>
  C8. \<open>NETWORK_NODES\<close> is a list of 8 nodes. For every performance configuration the
  rendered nodes are the first \<open>min 8 maxNodes\<close> nodes of that list, and every connection
  drawn starts at the position of a rendered node and ends at the position of a rendered
  node that is one of its connections; so no connection is drawn to a node that the
  limit cut off.
\<close>

theorem visibleNodes_and_connections:
  "length NETWORK_NODES = 8
   \<and> visibleNodes cfg = take (min 8 (maxNodes cfg)) NETWORK_NODES
   \<and> (\<forall>c \<in> set (connectionsOf (visibleNodes cfg)).
        \<exists>a \<in> set (visibleNodes cfg). \<exists>b \<in> set (visibleNodes cfg).
           start c = position a \<and> end' c = position b
           \<and> NodeData.id' b \<in> set (connections a)
           \<and> key c = NodeData.id' a @ ''-'' @ NodeData.id' b)"
proof -
  have len: "length NETWORK_NODES = 8" by (simp add: NETWORK_NODES_def)
  have "visibleNodes cfg = take (maxNodes cfg) NETWORK_NODES"
    by (simp add: visibleNodes_def slice_0_nat)
  with len have "visibleNodes cfg = take (min 8 (maxNodes cfg)) NETWORK_NODES"
    by (simp add: min_def)
  with len connectionsOf_joins_visible [of _ "visibleNodes cfg"] show ?thesis by blast
qed

theorem visibleNodes_and_connections_witness:
  "map NodeData.id' (visibleNodes (QUALITY_PRESETS low))
     = [''api-gateway'', ''auth'', ''users'', ''data'']
   \<and> map key (connectionsOf (visibleNodes (QUALITY_PRESETS low)))
     = [''api-gateway-auth'', ''api-gateway-users'', ''api-gateway-data'', ''auth-users'']"
proof -
  from visibleNodes_and_connections [of "QUALITY_PRESETS low"]
  have v: "visibleNodes (QUALITY_PRESETS low) = take 4 NETWORK_NODES"
    by (simp add: QUALITY_PRESETS_def)
  show ?thesis
    unfolding v by (simp add: NETWORK_NODES_def connectionsOf_def)
qed

section \<open>The matcher decides the language\<close>

lemma nullable_lang: "nullable r \<longleftrightarrow> [] \<in> lang r"
  by (induction r) (auto intro: star_empty)

lemma star_Cons:
  "c # s \<in> star A \<longleftrightarrow> (\<exists>u v. s = u @ v \<and> c # u \<in> A \<and> v \<in> star A)"
proof
  assume "c # s \<in> star A"
  then show "\<exists>u v. s = u @ v \<and> c # u \<in> A \<and> v \<in> star A"
  proof (induction "c # s" arbitrary: s rule: star.induct)
    case (star_step u v)
    show ?case
    proof (cases u)
      case Nil
      with star_step show ?thesis by simp
    next
      case (Cons a u')
      with star_step.hyps(1,2,4) have "s = u' @ v \<and> c # u' \<in> A \<and> v \<in> star A" by simp
      then show ?thesis by blast
    qed
  qed
next
  assume "\<exists>u v. s = u @ v \<and> c # u \<in> A \<and> v \<in> star A"
  then obtain u v where "s = u @ v" "c # u \<in> A" "v \<in> star A" by blast
  then show "c # s \<in> star A" using star_step [of "c # u" A v] by simp
qed

lemma deriv_lang: "s \<in> lang (deriv c r) \<longleftrightarrow> c # s \<in> lang r"
proof (induction r arbitrary: s)
  case (Seq r t)
  have "c # s \<in> lang (Seq r t)
          \<longleftrightarrow> ([] \<in> lang r \<and> c # s \<in> lang t)
              \<or> (\<exists>u v. s = u @ v \<and> c # u \<in> lang r \<and> v \<in> lang t)"
  proof
    assume "c # s \<in> lang (Seq r t)"
    then obtain u v where uv: "c # s = u @ v" "u \<in> lang r" "v \<in> lang t" by auto
    show "([] \<in> lang r \<and> c # s \<in> lang t)
              \<or> (\<exists>u v. s = u @ v \<and> c # u \<in> lang r \<and> v \<in> lang t)"
    proof (cases u)
      case Nil
      with uv show ?thesis by simp
    next
      case (Cons a u')
      with uv have "s = u' @ v \<and> c # u' \<in> lang r \<and> v \<in> lang t" by simp
      then show ?thesis by blast
    qed
  next
    assume "([] \<in> lang r \<and> c # s \<in> lang t)
              \<or> (\<exists>u v. s = u @ v \<and> c # u \<in> lang r \<and> v \<in> lang t)"
    then show "c # s \<in> lang (Seq r t)"
    proof
      assume "[] \<in> lang r \<and> c # s \<in> lang t"
      then have "c # s = [] @ (c # s) \<and> [] \<in> lang r \<and> c # s \<in> lang t" by simp
      then show ?thesis unfolding lang.simps by blast
    next
      assume "\<exists>u v. s = u @ v \<and> c # u \<in> lang r \<and> v \<in> lang t"
      then obtain u v where "s = u @ v" "c # u \<in> lang r" "v \<in> lang t" by blast
      then have "c # s = (c # u) @ v \<and> c # u \<in> lang r \<and> v \<in> lang t" by simp
      then show ?thesis unfolding lang.simps by blast
    qed
  qed
  moreover have "s \<in> lang (deriv c (Seq r t))
          \<longleftrightarrow> ([] \<in> lang r \<and> s \<in> lang (deriv c t))
              \<or> (\<exists>u v. s = u @ v \<and> u \<in> lang (deriv c r) \<and> v \<in> lang t)"
    by (auto simp add: nullable_lang)
  ultimately show ?case by (simp add: Seq.IH)
next
  case (Star r)
  have "s \<in> lang (deriv c (Star r))
          \<longleftrightarrow> (\<exists>u v. s = u @ v \<and> u \<in> lang (deriv c r) \<and> v \<in> star (lang r))"
    by auto
  then show ?case by (simp add: star_Cons Star.IH)
qed auto

lemma matches_lang: "matches r s \<longleftrightarrow> s \<in> lang r"
  by (induction s arbitrary: r) (simp_all add: nullable_lang deriv_lang)

lemma star_Class: "s \<in> star (lang (Class p)) \<longleftrightarrow> list_all p s"
proof
  assume "s \<in> star (lang (Class p))"
  then show "list_all p s" by (induction rule: star.induct) auto
next
  assume "list_all p s"
  then show "s \<in> star (lang (Class p))"
  proof (induction s)
    case Nil
    show ?case by (rule star_empty)
  next
    case (Cons c s)
    then have "[c] \<in> lang (Class p)" "s \<in> star (lang (Class p))" by simp_all
    from star_step [OF this] show ?case by simp
  qed
qed

lemma Plus_Class_lang: "s \<in> lang (Plus (Class p)) \<longleftrightarrow> s \<noteq> [] \<and> list_all p s"
proof -
  have "s \<in> lang (Plus (Class p))
          \<longleftrightarrow> (\<exists>u v. s = u @ v \<and> u \<in> lang (Class p) \<and> v \<in> star (lang (Class p)))"
    unfolding Plus_def lang.simps(5,6) by blast
  also have "\<dots> \<longleftrightarrow> (\<exists>c v. s = c # v \<and> p c \<and> list_all p v)"
  proof
    assume "\<exists>u v. s = u @ v \<and> u \<in> lang (Class p) \<and> v \<in> star (lang (Class p))"
    then show "\<exists>c v. s = c # v \<and> p c \<and> list_all p v"
      unfolding star_Class by auto
  next
    assume "\<exists>c v. s = c # v \<and> p c \<and> list_all p v"
    then obtain c v where cv: "s = c # v" "p c" "list_all p v" by blast
    from cv(3) have "v \<in> star (lang (Class p))" unfolding star_Class .
    moreover from cv(2) have "[c] \<in> lang (Class p)" by simp
    moreover from cv(1) have "s = [c] @ v" by simp
    ultimately have "s = [c] @ v \<and> [c] \<in> lang (Class p) \<and> v \<in> star (lang (Class p))"
      by blast
    then show "\<exists>u v. s = u @ v \<and> u \<in> lang (Class p) \<and> v \<in> star (lang (Class p))"
      by blast
  qed
  also have "\<dots> \<longleftrightarrow> s \<noteq> [] \<and> list_all p s"
    by (cases s) auto
  finally show ?thesis .
qed

lemma emailRegex_language:
  "testWhole emailRegex s \<longleftrightarrow>
     (\<exists>a b c. s = a @ [0x40] @ b @ [0x2E] @ c
        \<and> a \<noteq> [] \<and> b \<noteq> [] \<and> c \<noteq> []
        \<and> list_all notSpaceAt a \<and> list_all notSpaceAt b \<and> list_all notSpaceAt c)"
proof -
  let ?P = "lang (Plus (Class notSpaceAt))"
  have "testWhole emailRegex s \<longleftrightarrow>
     (\<exists>a b c. s = a @ [0x40] @ b @ [0x2E] @ c \<and> a \<in> ?P \<and> b \<in> ?P \<and> c \<in> ?P)"
  proof
    assume "testWhole emailRegex s"
    then have "s \<in> lang emailRegex" by (simp add: testWhole_def matches_lang)
    then obtain a r1 where 1: "s = a @ r1" "a \<in> ?P"
      "r1 \<in> lang (Seq (Class (\<lambda>c. c = 0x40))
         (Seq (Plus (Class notSpaceAt)) (Seq (Class (\<lambda>c. c = 0x2E)) (Plus (Class notSpaceAt)))))"
      unfolding emailRegex_def lang.simps(5) by blast
    from 1(3) obtain x r2 where 2: "r1 = x @ r2" "x \<in> lang (Class (\<lambda>c. c = 0x40))"
      "r2 \<in> lang (Seq (Plus (Class notSpaceAt))
          (Seq (Class (\<lambda>c. c = 0x2E)) (Plus (Class notSpaceAt))))"
      unfolding lang.simps(5) by blast
    from 2(3) obtain b r3 where 3: "r2 = b @ r3" "b \<in> ?P"
      "r3 \<in> lang (Seq (Class (\<lambda>c. c = 0x2E)) (Plus (Class notSpaceAt)))"
      unfolding lang.simps(5) by blast
    from 3(3) obtain y c where 4: "r3 = y @ c" "y \<in> lang (Class (\<lambda>c. c = 0x2E))" "c \<in> ?P"
      unfolding lang.simps(5) by blast
    from 2(2) 4(2) have "x = [0x40]" "y = [0x2E]" by auto
    with 1 2 3 4 have "s = a @ [0x40] @ b @ [0x2E] @ c \<and> a \<in> ?P \<and> b \<in> ?P \<and> c \<in> ?P"
      by simp
    then show "\<exists>a b c. s = a @ [0x40] @ b @ [0x2E] @ c \<and> a \<in> ?P \<and> b \<in> ?P \<and> c \<in> ?P"
      by blast
  next
    assume "\<exists>a b c. s = a @ [0x40] @ b @ [0x2E] @ c \<and> a \<in> ?P \<and> b \<in> ?P \<and> c \<in> ?P"
    then obtain a b c where s: "s = a @ [0x40] @ b @ [0x2E] @ c"
      and abc: "a \<in> ?P" "b \<in> ?P" "c \<in> ?P" by blast
    have "[0x2E] \<in> lang (Class (\<lambda>c. c = 0x2E))" by simp
    with abc(3) have "[0x2E] @ c \<in> lang (Seq (Class (\<lambda>c. c = 0x2E)) (Plus (Class notSpaceAt)))"
      unfolding lang.simps(5) by blast
    with abc(2) have "b @ [0x2E] @ c \<in> lang (Seq (Plus (Class notSpaceAt))
          (Seq (Class (\<lambda>c. c = 0x2E)) (Plus (Class notSpaceAt))))"
      unfolding lang.simps(5) by blast
    moreover have "[0x40] \<in> lang (Class (\<lambda>c. c = 0x40))" by simp
    ultimately have "[0x40] @ b @ [0x2E] @ c \<in> lang (Seq (Class (\<lambda>c. c = 0x40))
         (Seq (Plus (Class notSpaceAt)) (Seq (Class (\<lambda>c. c = 0x2E)) (Plus (Class notSpaceAt)))))"
      unfolding lang.simps(5) by blast
    with abc(1) have "a @ [0x40] @ b @ [0x2E] @ c \<in> lang emailRegex"
      unfolding emailRegex_def lang.simps(5) by blast
    then show "testWhole emailRegex s" by (simp add: s testWhole_def matches_lang)
  qed
  then show ?thesis by (simp add: Plus_Class_lang conj_ac)
qed

section \<open>Contact form validation\<close>

lemma trim_Nil: "trim [] = []"
  by (simp add: trim_def)

lemma emailRegex_not_empty: "\<not> testWhole emailRegex []"
  by (simp add: testWhole_def emailRegex_def Plus_def)

lemma name_guard: "(\<not> truthy s \<or> length (trim s) < 2) \<longleftrightarrow> \<not> 2 \<le> length (trim s)"
  by (cases s) (auto simp add: truthy_def trim_Nil)

lemma message_guard: "(\<not> truthy s \<or> length (trim s) < 10) \<longleftrightarrow> \<not> 10 \<le> length (trim s)"
  by (cases s) (auto simp add: truthy_def trim_Nil)

lemma email_guard:
  "(\<not> truthy s \<or> \<not> testWhole emailRegex s) \<longleftrightarrow> \<not> testWhole emailRegex s"
  by (cases s) (auto simp add: truthy_def emailRegex_not_empty)

text \<open>
  C1. \<open>validateContactForm\<close> returns \<open>isValid = true\<close> exactly when the trimmed name has
  at least 2 code units, the email matches the regular expression and the trimmed message
  has at least 10 code units; each check that fails sets its own fixed message under its
  own key and nothing else, and \<open>isValid\<close> holds exactly when no key is set. The strings
  that match the regular expression are those of \<open>emailRegex_language\<close>.
\<close>

theorem validateContactForm_checks:
  "validateContactForm d =
     \<lparr>isValid = (2 \<le> length (trim (name d)) \<and> testWhole emailRegex (email d)
                 \<and> 10 \<le> length (trim (message d))),
      errors =
        \<lparr>nameError = (if 2 \<le> length (trim (name d)) then None
                       else Some ''Name must be at least 2 characters''),
         emailError = (if testWhole emailRegex (email d) then None
                        else Some ''Please enter a valid email address''),
         messageError = (if 10 \<le> length (trim (message d)) then None
                          else Some ''Message must be at least 10 characters'')\<rparr>\<rparr>
   \<and> (isValid (validateContactForm d)
        \<longleftrightarrow> errors (validateContactForm d)
              = \<lparr>nameError = None, emailError = None, messageError = None\<rparr>)"
proof -
  have n: "(\<not> truthy (name d) \<or> length (trim (name d)) < 2)
             \<longleftrightarrow> \<not> 2 \<le> length (trim (name d))"
    by (rule name_guard)
  have e: "(\<not> truthy (email d) \<or> \<not> testWhole emailRegex (email d))
             \<longleftrightarrow> \<not> testWhole emailRegex (email d)"
    by (rule email_guard)
  have m: "(\<not> truthy (message d) \<or> length (trim (message d)) < 10)
             \<longleftrightarrow> \<not> 10 \<le> length (trim (message d))"
    by (rule message_guard)
  show ?thesis
    unfolding validateContactForm_def Let_def n e m
    by (cases "2 \<le> length (trim (name d))"; cases "testWhole emailRegex (email d)";
        cases "10 \<le> length (trim (message d))")
       (simp_all add: errorKeys_def)
qed

theorem validateContactForm_checks_witness:
  "validateContactForm \<lparr>name = js '' Al '', email = js ''al@ex.io'', message = js ''hello there''\<rparr>
     = \<lparr>isValid = True,
        errors = \<lparr>nameError = None, emailError = None, messageError = None\<rparr>\<rparr>
   \<and> validateContactForm \<lparr>name = js '' A '', email = js ''al@ex'', message = js ''hello''\<rparr>
     = \<lparr>isValid = False,
        errors = \<lparr>nameError = Some ''Name must be at least 2 characters'',
                  emailError = Some ''Please enter a valid email address'',
                  messageError = Some ''Message must be at least 10 characters''\<rparr>\<rparr>"
proof -
  have a: "trim (js '' Al '') = js ''Al''" "trim (js ''hello there'') = js ''hello there''"
    "trim (js '' A '') = js ''A''" "trim (js ''hello'') = js ''hello''"
    by (simp_all add: trim_def js_def isWhiteSpace_def)
  have b: "testWhole emailRegex (js ''al@ex.io'')" "\<not> testWhole emailRegex (js ''al@ex'')"
    by (simp_all add: testWhole_def emailRegex_def Plus_def js_def notSpaceAt_def
        isWhiteSpace_def)
  from validateContactForm_checks
         [of "\<lparr>name = js '' Al '', email = js ''al@ex.io'', message = js ''hello there''\<rparr>"]
       validateContactForm_checks
         [of "\<lparr>name = js '' A '', email = js ''al@ex'', message = js ''hello''\<rparr>"]
  show ?thesis by (simp add: a b) (simp add: js_def)
qed

end
